theory Spec2Isabelle
  imports Complex_Main
begin

section \<open>Common conventions\<close>

text \<open>
  Tensors hold floating-point numbers in the source. Finite arithmetic is modelled over
  \<^typ>\<open>real\<close> (rounding is not modelled); the special values that numpy produces on a
  division by zero are modelled explicitly where a function can produce them.
  Every raise of the source is a value of \<open>py_error\<close>.
\<close>

datatype py_error = IndexError | KeyError | ZeroDivisionError | ShapeError | TypeError | AttributeError

type_synonym vec = "real list"
type_synonym mat = "real list list"

section \<open>Relu (common/layers.py)\<close>

text \<open>
  Tensor objects live in a store, addressed by object identity. \<open>Relu.backward\<close> executes
  \<open>dout[self.mask] = 0; dx = dout; return dx\<close>: it writes through the reference it was
  given and returns that reference. Boolean-mask assignment needs a mask of the tensor's
  shape; tensors are kept flattened here. Before any forward call the mask is \<open>None\<close>,
  and the index \<open>None\<close> selects the whole tensor. An address that the store does not
  hold is a \<open>KeyError\<close> of the model.
\<close>

type_synonym addr = nat
type_synonym store = "addr \<rightharpoonup> vec"

record Relu =
  mask :: "bool list option"

definition masked_fill_zero :: "vec \<Rightarrow> bool list \<Rightarrow> vec" where
  "masked_fill_zero v m = map2 (\<lambda>x b. if b then 0 else x) v m"

definition Relu_forward :: "Relu \<Rightarrow> store \<Rightarrow> addr \<Rightarrow> addr \<Rightarrow> py_error + (Relu \<times> store \<times> addr)" where
  "Relu_forward self st x fresh =
     (case st x of
        None \<Rightarrow> Inl KeyError
      | Some v \<Rightarrow>
          (let m = map (\<lambda>a. a \<le> 0) v;
               out = masked_fill_zero v m
           in Inr (self\<lparr>mask := Some m\<rparr>, st(fresh \<mapsto> out), fresh)))"

definition Relu_backward :: "Relu \<Rightarrow> store \<Rightarrow> addr \<Rightarrow> py_error + (store \<times> addr)" where
  "Relu_backward self st dout =
     (case st dout of
        None \<Rightarrow> Inl KeyError
      | Some v \<Rightarrow>
          (case mask self of
             None \<Rightarrow> Inr (st(dout \<mapsto> map (\<lambda>_. 0) v), dout)
           | Some m \<Rightarrow>
               (if length m = length v
                then Inr (st(dout \<mapsto> masked_fill_zero v m), dout)
                else Inl IndexError)))"

section \<open>Evaluation: accuracy\_f1score (models/CNN.py, models/VGG16.py)\<close>

text \<open>
  The confusion matrix and the averages are numpy float64 values. Dividing a numpy
  float by zero does not raise: it yields \<open>nan\<close> (for \<open>0/0\<close>) or an infinity, with a
  warning. These special values are part of the model; signed zeros are not (every
  quantity of this function is a sum of counts).
\<close>

datatype np_float = Finite real | NaN | PosInf | NegInf

fun np_add :: "np_float \<Rightarrow> np_float \<Rightarrow> np_float" where
  "np_add NaN _ = NaN"
| "np_add _ NaN = NaN"
| "np_add (Finite a) (Finite b) = Finite (a + b)"
| "np_add PosInf NegInf = NaN"
| "np_add NegInf PosInf = NaN"
| "np_add PosInf _ = PosInf"
| "np_add NegInf _ = NegInf"
| "np_add (Finite a) y = y"

fun np_neg :: "np_float \<Rightarrow> np_float" where
  "np_neg (Finite a) = Finite (- a)"
| "np_neg NaN = NaN"
| "np_neg PosInf = NegInf"
| "np_neg NegInf = PosInf"

fun np_mul :: "np_float \<Rightarrow> np_float \<Rightarrow> np_float" where
  "np_mul NaN _ = NaN"
| "np_mul _ NaN = NaN"
| "np_mul (Finite a) (Finite b) = Finite (a * b)"
| "np_mul (Finite a) y = (if a = 0 then NaN else if 0 < a then y else np_neg y)"
| "np_mul x (Finite b) = (if b = 0 then NaN else if 0 < b then x else np_neg x)"
| "np_mul PosInf y = y"
| "np_mul NegInf y = np_neg y"

fun np_div :: "np_float \<Rightarrow> np_float \<Rightarrow> np_float" where
  "np_div NaN _ = NaN"
| "np_div _ NaN = NaN"
| "np_div (Finite a) (Finite b) =
     (if b = 0 then (if a = 0 then NaN else if 0 < a then PosInf else NegInf)
      else Finite (a / b))"
| "np_div (Finite a) _ = Finite 0"
| "np_div x (Finite b) = (if 0 \<le> b then x else np_neg x)"
| "np_div _ _ = NaN"

definition np_mean :: "np_float list \<Rightarrow> np_float" where
  "np_mean xs = np_div (fold (\<lambda>x acc. np_add acc x) xs (Finite 0)) (Finite (real (length xs)))"

text \<open>
  \<open>confusion_matrix[tt[j]][y[j]] += 1\<close>: an index outside the matrix raises.
  Labels and predictions are class numbers, kept as naturals.
\<close>

definition cm_incr :: "mat \<Rightarrow> nat \<Rightarrow> nat \<Rightarrow> py_error + mat" where
  "cm_incr cm t p =
     (if t < length cm \<and> p < length (cm ! t)
      then Inr (cm[t := (cm ! t)[p := cm ! t ! p + 1]])
      else Inl IndexError)"

text \<open>The inner loop \<open>for j in range(len(y)): confusion_matrix[tt[j]][y[j]] += 1\<close>.\<close>

fun count_batch :: "mat \<Rightarrow> nat list \<Rightarrow> nat list \<Rightarrow> nat \<Rightarrow> py_error + mat" where
  "count_batch cm tt [] j = Inr cm"
| "count_batch cm tt (p # ps) j =
     (if j < length tt
      then (case cm_incr cm (tt ! j) p of
              Inl e \<Rightarrow> Inl e
            | Inr cm' \<Rightarrow> count_batch cm' tt ps (Suc j))
      else Inl IndexError)"

text \<open>Python's slice \<open>xs[i * batch_size : (i + 1) * batch_size]\<close>.\<close>

definition batch_slice :: "'a list \<Rightarrow> nat \<Rightarrow> nat \<Rightarrow> 'a list" where
  "batch_slice xs i batch_size = take batch_size (drop (i * batch_size) xs)"

text \<open>
  The outer loop \<open>for i in range(int(x.shape[0] / batch_size))\<close>, over the batch numbers.
  \<open>classify\<close> stands for \<open>np.argmax(self.predict(tx), axis=1)\<close>: the network's predicted
  class of every sample of the batch.
\<close>

fun count_batches :: "('x list \<Rightarrow> nat list) \<Rightarrow> 'x list \<Rightarrow> nat list \<Rightarrow> nat \<Rightarrow> nat list \<Rightarrow> mat
    \<Rightarrow> py_error + mat" where
  "count_batches classify x t batch_size [] cm = Inr cm"
| "count_batches classify x t batch_size (i # is) cm =
     (case count_batch cm (batch_slice t i batch_size)
             (classify (batch_slice x i batch_size)) 0 of
        Inl e \<Rightarrow> Inl e
      | Inr cm' \<Rightarrow> count_batches classify x t batch_size is cm')"

definition zeros_matrix :: "nat \<Rightarrow> mat" where
  "zeros_matrix labels = replicate labels (replicate labels 0)"

text \<open>\<open>np.sum(confusion_matrix, axis=0)\<close> (column sums) and \<open>axis=1\<close> (row sums).\<close>

definition sum_axis0 :: "nat \<Rightarrow> mat \<Rightarrow> vec" where
  "sum_axis0 labels cm = map (\<lambda>j. sum_list (map (\<lambda>r. r ! j) cm)) [0..<labels]"

definition sum_axis1 :: "mat \<Rightarrow> vec" where
  "sum_axis1 cm = map sum_list cm"

text \<open>
  The two passes that fill \<open>precision\<close> and \<open>recall\<close>: the quotient is taken only in the
  \<open>else\<close> branch of the test \<open>devider[i] == 0\<close>.
\<close>

definition per_class :: "nat \<Rightarrow> mat \<Rightarrow> vec \<Rightarrow> np_float list" where
  "per_class labels cm devider =
     map (\<lambda>i. if devider ! i = 0 then Finite 0
               else np_div (Finite (cm ! i ! i)) (Finite (devider ! i))) [0..<labels]"

definition precision :: "nat \<Rightarrow> mat \<Rightarrow> np_float list" where
  "precision labels cm = per_class labels cm (sum_axis0 labels cm)"

definition recall :: "nat \<Rightarrow> mat \<Rightarrow> np_float list" where
  "recall labels cm = per_class labels cm (sum_axis1 cm)"

definition f1_combine :: "np_float \<Rightarrow> np_float \<Rightarrow> np_float" where
  "f1_combine precision_avg recall_avg =
     np_div (np_mul (np_mul (Finite 2) precision_avg) recall_avg)
            (np_add precision_avg recall_avg)"

definition f1score_of :: "nat \<Rightarrow> mat \<Rightarrow> np_float" where
  "f1score_of labels cm =
     f1_combine (np_mean (precision labels cm)) (np_mean (recall labels cm))"

text \<open>
  \<open>accuracy = 0.0; for i in range(labels): accuracy += confusion_matrix[i][i];
  accuracy = accuracy / x.shape[0]\<close>. With no class at all the accumulator is still the
  Python float \<open>0.0\<close>, whose division by zero raises; otherwise it is a numpy float.
\<close>

definition accuracy_of :: "nat \<Rightarrow> mat \<Rightarrow> nat \<Rightarrow> py_error + np_float" where
  "accuracy_of labels cm n =
     (if labels = 0 \<and> n = 0 then Inl ZeroDivisionError
      else Inr (np_div (Finite (sum_list (map (\<lambda>i. cm ! i ! i) [0..<labels])))
                       (Finite (real n))))"

text \<open>
  The whole function; \<open>labels\<close> is \<open>self.output_size\<close>, \<open>t\<close> the class numbers (a one-hot
  \<open>t\<close> has been turned into class numbers by \<open>argmax\<close> before the loop).
  \<open>int(x.shape[0] / batch_size)\<close> raises for \<open>batch_size = 0\<close>; for the natural numbers
  here it is the integer quotient.
\<close>

definition accuracy_f1score ::
  "nat \<Rightarrow> ('x list \<Rightarrow> nat list) \<Rightarrow> 'x list \<Rightarrow> nat list \<Rightarrow> nat
     \<Rightarrow> py_error + (np_float \<times> np_float \<times> mat)" where
  "accuracy_f1score labels classify x t batch_size =
     (if batch_size = 0 then Inl ZeroDivisionError
      else case count_batches classify x t batch_size [0..<length x div batch_size]
                  (zeros_matrix labels) of
             Inl e \<Rightarrow> Inl e
           | Inr cm \<Rightarrow>
               (case accuracy_of labels cm (length x) of
                  Inl e \<Rightarrow> Inl e
                | Inr accuracy \<Rightarrow> Inr (accuracy, f1score_of labels cm, cm)))"

text \<open>
  For stating results: the \<open>labels \<times> labels\<close> matrix with \<open>f i\<close> at the diagonal position
  \<open>i\<close> and \<open>0\<close> elsewhere.
\<close>

definition diag_matrix :: "nat \<Rightarrow> (nat \<Rightarrow> real) \<Rightarrow> mat" where
  "diag_matrix labels f = map (\<lambda>i. map (\<lambda>j. if i = j then f i else 0) [0..<labels]) [0..<labels]"

section \<open>BatchNormalization (common/layers.py)\<close>

text \<open>
  The private \<open>__forward\<close> works on a 2-D tensor of \<open>N\<close> rows and \<open>D\<close> features (the public
  \<open>forward\<close> only reshapes a 4-D input to that form and the output back). A matrix is the
  list of its rows; \<open>gamma\<close>, \<open>beta\<close> and the statistics are per-feature vectors that
  broadcast over the rows. torch raises on operands whose shapes do not broadcast; the
  model raises \<open>ShapeError\<close> unless every row and every vector it combines has length
  \<open>D\<close>.
  Attributes that are \<open>None\<close> until first set are options. Division is real division:
  where torch yields a non-finite value (an empty batch, a running variance with
  \<open>running_var + 10e-7 \<le> 0\<close>) the model's value is not meant.
\<close>

record BatchNormalization =
  gamma :: vec
  beta :: vec
  momentum :: real
  running_mean :: "vec option"
  running_var :: "vec option"
  batch_size :: "nat option"
  xc :: "mat option"
  xn :: "mat option"
  std :: "vec option"

definition BatchNormalization_init :: "vec \<Rightarrow> vec \<Rightarrow> real \<Rightarrow> vec option \<Rightarrow> vec option
    \<Rightarrow> BatchNormalization" where
  "BatchNormalization_init g b m rm rv =
     \<lparr>gamma = g, beta = b, momentum = m, running_mean = rm, running_var = rv,
      batch_size = None, xc = None, xn = None, std = None\<rparr>"

text \<open>The literal \<open>10e-7\<close> of the source: ten times ten to the minus seven.\<close>

definition bn_eps :: real where
  "bn_eps = 10 / 10 ^ 7"

definition ncols :: "mat \<Rightarrow> nat" where
  "ncols x = (case x of [] \<Rightarrow> 0 | r # _ \<Rightarrow> length r)"

definition mean_dim0 :: "mat \<Rightarrow> vec" where
  "mean_dim0 x = map (\<lambda>j. sum_list (map (\<lambda>r. r ! j) x) / real (length x)) [0..<ncols x]"

definition sub_rows :: "mat \<Rightarrow> vec \<Rightarrow> mat" where
  "sub_rows x v = map (\<lambda>r. map2 (-) r v) x"

definition div_rows :: "mat \<Rightarrow> vec \<Rightarrow> mat" where
  "div_rows x v = map (\<lambda>r. map2 (/) r v) x"

definition square_mat :: "mat \<Rightarrow> mat" where
  "square_mat x = map (map (\<lambda>a. a ^ 2)) x"

definition sqrt_eps :: "vec \<Rightarrow> vec" where
  "sqrt_eps v = map (\<lambda>a. sqrt (a + bn_eps)) v"

definition scale_shift :: "vec \<Rightarrow> vec \<Rightarrow> mat \<Rightarrow> mat" where
  "scale_shift g b x = map (\<lambda>r. map2 (+) (map2 (*) g r) b) x"

definition moving_average :: "real \<Rightarrow> vec \<Rightarrow> vec \<Rightarrow> vec" where
  "moving_average m running current = map2 (\<lambda>r c. m * r + (1 - m) * c) running current"

definition bn_shapes_ok :: "BatchNormalization \<Rightarrow> mat \<Rightarrow> bool" where
  "bn_shapes_ok self x =
     (list_all (\<lambda>r. length r = ncols x) x
      \<and> length (gamma self) = ncols x \<and> length (beta self) = ncols x)"

text \<open>
  The running statistics are absent, or both present with one entry per feature.
\<close>

definition bn_stats_ok :: "BatchNormalization \<Rightarrow> mat \<Rightarrow> bool" where
  "bn_stats_ok self x =
     (case running_mean self of
        None \<Rightarrow> True
      | Some rm \<Rightarrow>
          (case running_var self of
             None \<Rightarrow> False
           | Some rv \<Rightarrow> length rm = ncols x \<and> length rv = ncols x))"

text \<open>
  \<open>__forward(self, x, train_flg)\<close>, returning the updated layer and the output. The
  statistics are created as zero vectors when \<open>running_mean\<close> is \<open>None\<close>; the batch
  branch is taken when \<open>train_flg or self.batch_size is None\<close>. The running statistics are
  read only where the source reads them: in the moving average of a training call and in
  the inference branch (a \<open>None\<close> there is a \<open>TypeError\<close>, a vector of another length a
  \<open>ShapeError\<close>).
\<close>

definition BatchNormalization_private_forward ::
  "BatchNormalization \<Rightarrow> mat \<Rightarrow> bool \<Rightarrow> py_error + (BatchNormalization \<times> mat)" where
  "BatchNormalization_private_forward self x train_flg =
     (if \<not> bn_shapes_ok self x then Inl ShapeError
      else
        let self1 = (if running_mean self = None
                     then self\<lparr>running_mean := Some (replicate (ncols x) 0),
                               running_var := Some (replicate (ncols x) 0)\<rparr>
                     else self)
        in if train_flg \<or> batch_size self1 = None
           then
             let mu = mean_dim0 x;
                 xc' = sub_rows x mu;
                 var = mean_dim0 (square_mat xc');
                 std' = sqrt_eps var;
                 xn' = div_rows xc' std';
                 self2 = self1\<lparr>batch_size := Some (length x), xc := Some xc',
                                xn := Some xn', std := Some std'\<rparr>
             in if train_flg
                then (case (running_mean self2, running_var self2) of
                        (Some rm, Some rv) \<Rightarrow>
                          if length rm \<noteq> ncols x \<or> length rv \<noteq> ncols x then Inl ShapeError
                          else Inr (self2\<lparr>running_mean :=
                                            Some (moving_average (momentum self2) rm mu),
                                          running_var :=
                                            Some (moving_average (momentum self2) rv var)\<rparr>,
                                    scale_shift (gamma self2) (beta self2) xn')
                      | _ \<Rightarrow> Inl TypeError)
                else Inr (self2, scale_shift (gamma self2) (beta self2) xn')
           else (case (running_mean self1, running_var self1) of
                   (Some rm, Some rv) \<Rightarrow>
                     if length rm \<noteq> ncols x \<or> length rv \<noteq> ncols x then Inl ShapeError
                     else
                       let xc' = sub_rows x rm;
                           xn' = div_rows xc' (sqrt_eps rv)
                       in Inr (self1, scale_shift (gamma self1) (beta self1) xn')
                 | _ \<Rightarrow> Inl TypeError))"

section \<open>SoftmaxWithLoss (common/layers.py)\<close>

text \<open>
  The layer caches references to two tensor objects, \<open>self.y\<close> and \<open>self.t\<close>. A tensor is
  either a 2-D float tensor (the softmax output, a one-hot target) or a 1-D integer
  tensor (class indices); objects live in a store and are addressed by identity.

  The test of \<open>backward\<close> is \<open>self.t.size == self.y.size\<close>. On a torch tensor \<open>size\<close> is a
  method, not the element count that numpy's attribute of that name holds, and the source
  does not call it: the test compares two bound methods, which are equal exactly when
  they are bound to the same object. \<open>self.y\<close> is a torch tensor (the other branch calls
  \<open>self.y.clone().detach()\<close>), so the test is modelled as identity of the two objects.
\<close>

datatype tensor = FloatT mat | LongT "nat list"

type_synonym tensor_store = "addr \<rightharpoonup> tensor"

record SoftmaxWithLoss =
  softmax_y :: "addr option"
  softmax_t :: "addr option"

definition shape0 :: "tensor \<Rightarrow> nat" where
  "shape0 a = (case a of FloatT m \<Rightarrow> length m | LongT l \<Rightarrow> length l)"

definition size_attr_eq :: "addr \<Rightarrow> addr \<Rightarrow> bool" where
  "size_attr_eq a b = (a = b)"

definition div_scalar :: "mat \<Rightarrow> nat \<Rightarrow> mat" where
  "div_scalar m n = map (map (\<lambda>a. a / real n)) m"

definition sub_mat :: "mat \<Rightarrow> mat \<Rightarrow> mat" where
  "sub_mat a b = map2 (map2 (-)) a b"

text \<open>
  \<open>dx[torch.arange(batch_size), self.t] -= 1\<close> with an integer index tensor: row \<open>i\<close> is
  changed at column \<open>t[i]\<close>; a position outside \<open>dx\<close> raises.
\<close>

fun index_sub_one :: "mat \<Rightarrow> nat list \<Rightarrow> nat \<Rightarrow> py_error + mat" where
  "index_sub_one dx [] i = Inr dx"
| "index_sub_one dx (c # cs) i =
     (if i < length dx \<and> c < length (dx ! i)
      then index_sub_one (dx[i := (dx ! i)[c := dx ! i ! c - 1]]) cs (Suc i)
      else Inl IndexError)"

text \<open>
  \<open>backward\<close>. Before any forward call \<open>self.t\<close> is \<open>None\<close> and \<open>self.t.shape\<close> raises.
  \<open>self.y\<close> is the softmax output, a float matrix (anything else under its address is
  outside the model and reported as \<open>KeyError\<close>, like a dangling address). In the index
  branch a float tensor used as an index raises (torch accepts only integer or boolean
  index tensors). The division by \<open>batch_size\<close> is real division;
  for an empty batch torch yields non-finite entries, which are not modelled.
\<close>

definition SoftmaxWithLoss_backward ::
  "SoftmaxWithLoss \<Rightarrow> tensor_store \<Rightarrow> py_error + mat" where
  "SoftmaxWithLoss_backward self st =
     (case (softmax_y self, softmax_t self) of
        (Some ya, Some ta) \<Rightarrow>
          (case (st ya, st ta) of
             (Some (FloatT yv), Some tv) \<Rightarrow>
               (let batch_size = shape0 tv in
                if size_attr_eq ta ya
                then (case tv of
                        FloatT tm \<Rightarrow> Inr (div_scalar (sub_mat yv tm) batch_size)
                      | LongT _ \<Rightarrow> Inl TypeError)
                else (case tv of
                        LongT idx \<Rightarrow>
                          (case index_sub_one yv idx 0 of
                             Inl e \<Rightarrow> Inl e
                           | Inr dx \<Rightarrow> Inr (div_scalar dx batch_size))
                      | FloatT _ \<Rightarrow> Inl IndexError))
           | _ \<Rightarrow> Inl KeyError)
      | _ \<Rightarrow> Inl AttributeError)"

text \<open>\<open>forward\<close> stores the two references (the loss value itself is not modelled).\<close>

definition SoftmaxWithLoss_cache :: "SoftmaxWithLoss \<Rightarrow> addr \<Rightarrow> addr \<Rightarrow> SoftmaxWithLoss" where
  "SoftmaxWithLoss_cache self ya ta = self\<lparr>softmax_y := Some ya, softmax_t := Some ta\<rparr>"

section \<open>Parameter binding: \_\_init\_\_, gradient and load\_params (models/VGG16.py, models/CNN.py)\<close>

text \<open>
  Sharing is a matter of object identity, so a tensor is represented by its address.
  \<open>self.params\<close> maps a parameter name to a tensor object; a parameterised layer holds
  the two references \<open>W\<close> and \<open>b\<close>. Only the parameterised layers of \<open>self.layers\<close> are
  kept (\<open>Relu\<close> and \<open>Pooling\<close> layers hold no parameter).
\<close>

record param_layer =
  layer_W :: addr
  layer_b :: addr

record network =
  net_params :: "string \<rightharpoonup> addr"
  net_layers :: "string \<rightharpoonup> param_layer"

text \<open>Python's \<open>str\<close> of a natural number, for \<open>f"W{i}"\<close> and \<open>"W" + str(i + 1)\<close>.\<close>

definition digit_char :: "nat \<Rightarrow> char" where
  "digit_char d = char_of (48 + d)"

fun str_nat :: "nat \<Rightarrow> string" where
  "str_nat n = (if n < 10 then [digit_char n] else str_nat (n div 10) @ [digit_char (n mod 10)])"

definition key :: "string \<Rightarrow> nat \<Rightarrow> string" where
  "key prefix i = prefix @ str_nat i"

text \<open>
  The binding that \<open>VGG16.__init__\<close> establishes and \<open>VGG16.gradient\<close> reads back:
  \<open>Conv1..Conv13\<close> use \<open>W1..W13\<close>, \<open>Affine1..Affine3\<close> use \<open>W14..W16\<close>. For the base network
  \<open>CNN.gradient\<close> reads \<open>Conv1\<close>, \<open>Affine1\<close>, \<open>Affine2\<close> against \<open>W1\<close>, \<open>W2\<close>, \<open>W3\<close>.
  An entry is (layer name, index of its parameter pair).
\<close>

definition VGG16_binding :: "(string \<times> nat) list" where
  "VGG16_binding =
     map (\<lambda>i. (key ''Conv'' i, i)) [1..<14] @ map (\<lambda>i. (key ''Affine'' i, 13 + i)) [1..<4]"

definition CNN_binding :: "(string \<times> nat) list" where
  "CNN_binding = [(''Conv1'', 1), (''Affine1'', 2), (''Affine2'', 3)]"

text \<open>
  \<open>VGG16.__init__\<close>: one tensor object per parameter (the object of \<open>W\<close>\<open>i\<close> is created at
  address \<open>base + 2 * i\<close>, that of \<open>b\<close>\<open>i\<close> at \<open>base + 2 * i + 1\<close>), and every layer built from
  the entries of \<open>self.params\<close>.
\<close>

definition fresh_params :: "nat \<Rightarrow> nat \<Rightarrow> (string \<times> addr) list" where
  "fresh_params base n =
     concat (map (\<lambda>i. [(key ''W'' i, base + 2 * i), (key ''b'' i, base + 2 * i + 1)]) [1..<Suc n])"

definition bind_layers :: "(string \<rightharpoonup> addr) \<Rightarrow> (string \<times> nat) list \<Rightarrow> (string \<rightharpoonup> param_layer)" where
  "bind_layers ps binding =
     map_of (map (\<lambda>(name, i). (name, \<lparr>layer_W = the (ps (key ''W'' i)),
                                        layer_b = the (ps (key ''b'' i))\<rparr>)) binding)"

definition VGG16_init :: "nat \<Rightarrow> network" where
  "VGG16_init base =
     (let ps = map_of (fresh_params base 16)
      in \<lparr>net_params = ps, net_layers = bind_layers ps VGG16_binding\<rparr>)"

text \<open>
  \<open>load_params\<close> (the same text in both classes). \<open>loaded\<close> is the unpickled dictionary,
  in iteration order; its tensors are new objects. First every loaded entry is stored
  into \<open>self.params\<close>; then the loop over \<open>enumerate(["Conv1", "Affine1", "Affine2"])\<close>
  assigns \<open>self.layers[key].W = self.params["W" + str(i + 1)]\<close> and likewise \<open>b\<close>. A missing
  layer or parameter name raises \<open>KeyError\<close>.
\<close>

definition store_loaded :: "(string \<rightharpoonup> addr) \<Rightarrow> (string \<times> addr) list \<Rightarrow> (string \<rightharpoonup> addr)" where
  "store_loaded ps loaded = fold (\<lambda>(k, v) m. m(k \<mapsto> v)) loaded ps"

fun rebind :: "network \<Rightarrow> (nat \<times> string) list \<Rightarrow> py_error + network" where
  "rebind net [] = Inr net"
| "rebind net ((i, name) # rest) =
     (case (net_layers net name, net_params net (key ''W'' (i + 1)),
            net_params net (key ''b'' (i + 1))) of
        (Some l, Some w, Some b) \<Rightarrow>
          rebind (net\<lparr>net_layers := (net_layers net)(name \<mapsto> l\<lparr>layer_W := w, layer_b := b\<rparr>)\<rparr>) rest
      | _ \<Rightarrow> Inl KeyError)"

definition load_params :: "network \<Rightarrow> (string \<times> addr) list \<Rightarrow> py_error + network" where
  "load_params net loaded =
     rebind (net\<lparr>net_params := store_loaded (net_params net) loaded\<rparr>)
       (enumerate 0 [''Conv1'', ''Affine1'', ''Affine2''])"

text \<open>
  The invariant of the data model, over a binding table: every listed layer exists and
  its \<open>W\<close> and \<open>b\<close> are the objects that \<open>self.params\<close> holds under the layer's names.
\<close>

definition shares_params :: "(string \<times> nat) list \<Rightarrow> network \<Rightarrow> bool" where
  "shares_params binding net =
     list_all (\<lambda>(name, i).
        case net_layers net name of
          None \<Rightarrow> False
        | Some l \<Rightarrow> net_params net (key ''W'' i) = Some (layer_W l)
                   \<and> net_params net (key ''b'' i) = Some (layer_b l)) binding"

section \<open>Convolution (common/layers.py): the shapes of forward\<close>







section \<open>Pooling (common/layers.py)\<close>

text \<open>
  A 4-D tensor is its shape \<open>(N, C, H, W)\<close> together with its element at every index
  \<open>[n][c][h][w]\<close>. Matrices (the column forms) are lists of rows; entry \<open>m\<close> of a matrix
  in row-major order is \<open>mat_flat\<close>, which is what \<open>reshape\<close> preserves.
\<close>

record tensor4 =
  dims4 :: "nat \<times> nat \<times> nat \<times> nat"
  elem4 :: "nat \<Rightarrow> nat \<Rightarrow> nat \<Rightarrow> nat \<Rightarrow> real"

definition mat_flat :: "mat \<Rightarrow> nat \<Rightarrow> real" where
  "mat_flat m k = m ! (k div ncols m) ! (k mod ncols m)"

record Pooling =
  pool_h :: nat
  pool_w :: nat
  pool_stride :: nat
  pool_pad :: nat
  pool_x :: "tensor4 option"
  pool_arg_max :: "nat list option"

text \<open>
  Modelled from the spec: \<open>im2col\<close> (common/util.py is not among the sources). The spec
  has it "expand x into column form ... using (kH, kW, stride, pad)", the output size
  being \<open>floor((H + 2 * pad - kH) / stride) + 1\<close>, each row holding the flattened values of
  one window. Row \<open>(n, oh, ow)\<close> and column \<open>(c, i, j)\<close>, both in row-major order (the order
  in which \<open>forward\<close> reshapes rows to \<open>(N, out_h, out_w, ...)\<close> and weights to
  \<open>(C, kH, kW)\<close>), hold the zero-padded input at \<open>[n][c][oh * stride + i][ow * stride + j]\<close>.
  A kernel that does not fit into the padded input is a shape error, a zero stride a
  division by zero.
\<close>

definition im2col_out :: "nat \<Rightarrow> nat \<Rightarrow> nat \<Rightarrow> nat \<Rightarrow> py_error + nat" where
  "im2col_out H k stride pad =
     (if stride = 0 then Inl ZeroDivisionError
      else if H + 2 * pad < k then Inl ShapeError
      else Inr ((H + 2 * pad - k) div stride + 1))"

definition padded :: "tensor4 \<Rightarrow> nat \<Rightarrow> nat \<Rightarrow> nat \<Rightarrow> nat \<Rightarrow> nat \<Rightarrow> real" where
  "padded x pad n c Y X =
     (case dims4 x of (N, C, H, W) \<Rightarrow>
        if pad \<le> Y \<and> Y < H + pad \<and> pad \<le> X \<and> X < W + pad
        then elem4 x n c (Y - pad) (X - pad) else 0)"

definition im2col :: "tensor4 \<Rightarrow> nat \<Rightarrow> nat \<Rightarrow> nat \<Rightarrow> nat \<Rightarrow> py_error + mat" where
  "im2col x kh kw stride pad =
     (case dims4 x of (N, C, H, W) \<Rightarrow>
        (case im2col_out H kh stride pad of
           Inl e \<Rightarrow> Inl e
         | Inr oh \<Rightarrow>
        (case im2col_out W kw stride pad of
           Inl e \<Rightarrow> Inl e
         | Inr ow \<Rightarrow>
             Inr (map (\<lambda>r. map (\<lambda>q.
                    padded x pad (r div ow div oh) (q div kw div kh)
                      ((r div ow) mod oh * stride + (q div kw) mod kh)
                      (r mod ow * stride + q mod kw))
                  [0..<C * kh * kw]) [0..<N * oh * ow]))))"

text \<open>
  Modelled from the spec: \<open>col2im\<close> (common/util.py is not among the sources), which
  "inverse-scatters overlapping column entries back into spatial positions, summing
  contributions from overlapping receptive fields": the result has the given input shape,
  and its element at \<open>[n][c][y][x]\<close> is the sum of the column entries \<open>(n, oh, ow)\<close>,
  \<open>(c, i, j)\<close> whose padded position \<open>(oh * stride + i, ow * stride + j)\<close> is
  \<open>(y + pad, x + pad)\<close>. The column matrix is read in row-major order and must have as many
  entries as \<open>im2col\<close> produces for that shape.
\<close>

definition col2im :: "mat \<Rightarrow> nat \<times> nat \<times> nat \<times> nat \<Rightarrow> nat \<Rightarrow> nat \<Rightarrow> nat \<Rightarrow> nat
    \<Rightarrow> py_error + tensor4" where
  "col2im col shape kh kw stride pad =
     (case shape of (N, C, H, W) \<Rightarrow>
        (case im2col_out H kh stride pad of
           Inl e \<Rightarrow> Inl e
         | Inr oh \<Rightarrow>
        (case im2col_out W kw stride pad of
           Inl e \<Rightarrow> Inl e
         | Inr ow \<Rightarrow>
             if length col * ncols col \<noteq> N * oh * ow * C * kh * kw then Inl ShapeError
             else Inr \<lparr>dims4 = (N, C, H, W),
                       elem4 = (\<lambda>n c y x.
                         sum_list (map (\<lambda>oh'. sum_list (map (\<lambda>ow'.
                           sum_list (map (\<lambda>i. sum_list (map (\<lambda>j.
                             if oh' * stride + i = y + pad \<and> ow' * stride + j = x + pad
                             then mat_flat col
                                    (((((n * oh + oh') * ow + ow') * C + c) * kh + i) * kw + j)
                             else 0)
                           [0..<kw])) [0..<kh])) [0..<ow])) [0..<oh]))\<rparr>)))"

text \<open>
  \<open>torch.argmax\<close> along a row: the index of the first maximal value.
\<close>

fun argmax_from :: "real \<Rightarrow> nat \<Rightarrow> nat \<Rightarrow> vec \<Rightarrow> nat" where
  "argmax_from best bi i [] = bi"
| "argmax_from best bi i (v # vs) =
     (if best < v then argmax_from v i (Suc i) vs else argmax_from best bi (Suc i) vs)"

definition argmax_row :: "vec \<Rightarrow> nat" where
  "argmax_row r = (case r of [] \<Rightarrow> 0 | v # vs \<Rightarrow> argmax_from v 0 1 vs)"

text \<open>
  Python's \<open>int\<close> of a float truncates towards zero. The output size of \<open>forward\<close> is
  \<open>int(1 + (H - self.pool_h) / self.stride)\<close>; the padding does not enter it.
\<close>

definition py_int :: "real \<Rightarrow> int" where
  "py_int r = (if 0 \<le> r then \<lfloor>r\<rfloor> else \<lceil>r\<rceil>)"

definition pool_out_size :: "nat \<Rightarrow> nat \<Rightarrow> nat \<Rightarrow> py_error + int" where
  "pool_out_size H k stride =
     (if stride = 0 then Inl ZeroDivisionError
      else Inr (py_int (1 + (real H - real k) / real stride)))"

text \<open>
  \<open>col.reshape(-1, pool_size)\<close>: the entries of \<open>col\<close> in row-major order, cut into rows
  of \<open>pool_size\<close> entries (one row per window and channel).
\<close>

definition reshape_windows :: "mat \<Rightarrow> nat \<Rightarrow> py_error + mat" where
  "reshape_windows col pool_size =
     (if pool_size = 0 \<or> (length col * ncols col) mod pool_size \<noteq> 0 then Inl ShapeError
      else Inr (map (\<lambda>k. map (\<lambda>p. mat_flat col (k * pool_size + p)) [0..<pool_size])
                  [0..<(length col * ncols col) div pool_size]))"

text \<open>
  \<open>out.reshape(N, out_h, out_w, C)\<close> on the \<open>len\<close> row maxima. torch reads a dimension
  \<open>-1\<close> as "to be inferred" (at most one, from a positive product of the others that
  divides \<open>len\<close>); any other negative dimension, or a product of dimensions other than
  \<open>len\<close>, raises. The result is the pair of the two middle dimensions.
\<close>

definition reshape_out :: "nat \<Rightarrow> nat \<Rightarrow> int \<Rightarrow> int \<Rightarrow> nat \<Rightarrow> py_error + (nat \<times> nat)" where
  "reshape_out len N out_h out_w C =
     (if out_h < - 1 \<or> out_w < - 1 \<or> (out_h = - 1 \<and> out_w = - 1) then Inl ShapeError
      else if out_h = - 1
      then (if N * nat out_w * C = 0 \<or> len mod (N * nat out_w * C) \<noteq> 0 then Inl ShapeError
            else Inr (len div (N * nat out_w * C), nat out_w))
      else if out_w = - 1
      then (if N * nat out_h * C = 0 \<or> len mod (N * nat out_h * C) \<noteq> 0 then Inl ShapeError
            else Inr (nat out_h, len div (N * nat out_h * C)))
      else if len \<noteq> N * nat out_h * nat out_w * C then Inl ShapeError
      else Inr (nat out_h, nat out_w))"

text \<open>
  \<open>forward\<close>. The row maxima \<open>out\<close> are reshaped to \<open>(N, out_h, out_w, C)\<close> and permuted to
  \<open>(N, C, out_h, out_w)\<close>; the layer keeps \<open>x\<close> and the argmax of every row.
\<close>

definition Pooling_forward :: "Pooling \<Rightarrow> tensor4 \<Rightarrow> py_error + (Pooling \<times> tensor4)" where
  "Pooling_forward self x =
     (case dims4 x of (N, C, H, W) \<Rightarrow>
        (case pool_out_size H (pool_h self) (pool_stride self) of
           Inl e \<Rightarrow> Inl e
         | Inr out_h \<Rightarrow>
        (case pool_out_size W (pool_w self) (pool_stride self) of
           Inl e \<Rightarrow> Inl e
         | Inr out_w \<Rightarrow>
        (case im2col x (pool_h self) (pool_w self) (pool_stride self) (pool_pad self) of
           Inl e \<Rightarrow> Inl e
         | Inr col \<Rightarrow>
        (case reshape_windows col (pool_h self * pool_w self) of
           Inl e \<Rightarrow> Inl e
         | Inr windows \<Rightarrow>
             (let arg_max = map argmax_row windows;
                  out = map (\<lambda>r. r ! argmax_row r) windows
              in case reshape_out (length out) N out_h out_w C of
                   Inl e \<Rightarrow> Inl e
                 | Inr (h', w') \<Rightarrow>
                     Inr (self\<lparr>pool_x := Some x, pool_arg_max := Some arg_max\<rparr>,
                          \<lparr>dims4 = (N, C, h', w'),
                           elem4 = (\<lambda>n c h w. out ! (((n * h' + h) * w' + w) * C + c))\<rparr>)))))))"

text \<open>
  \<open>dout.permute(0, 2, 3, 1)\<close> followed by \<open>flatten()\<close>: entry \<open>k\<close> of the result, in the
  row-major order of the shape \<open>(N, H, W, C)\<close>, is \<open>dout[n][c][h][w]\<close>.
\<close>

definition permute_flatten :: "tensor4 \<Rightarrow> vec" where
  "permute_flatten dout =
     (case dims4 dout of (N, C, H, W) \<Rightarrow>
        map (\<lambda>k. elem4 dout (k div C div W div H) (k mod C) ((k div C div W) mod H)
                    ((k div C) mod W))
          [0..<N * H * W * C])"

text \<open>
  \<open>dmax = zeros((dout.size, pool_size));
  dmax[arange(arg_max.size), arg_max.flatten()] = dout.flatten().float()\<close>. The index vectors
  and the values must have one length (torch raises when they do not broadcast), and a
  column index outside the row raises.
\<close>

definition scatter_argmax :: "nat \<Rightarrow> nat list \<Rightarrow> vec \<Rightarrow> py_error + mat" where
  "scatter_argmax pool_size am g =
     (if length am \<noteq> length g then Inl ShapeError
      else if \<not> list_all (\<lambda>a. a < pool_size) am then Inl IndexError
      else Inr (map2 (\<lambda>a v. (replicate pool_size 0)[a := v]) am g))"

text \<open>
  \<open>dmax.reshape(dout.shape + (pool_size,))\<close> and then
  \<open>dmax.reshape(dmax.shape[0] * dmax.shape[1] * dmax.shape[2], -1)\<close>: the same entries in
  row-major order, in \<open>rows\<close> rows; the row length \<open>-1\<close> cannot be inferred for zero rows.
\<close>

definition reshape_dcol :: "mat \<Rightarrow> nat \<Rightarrow> py_error + mat" where
  "reshape_dcol dmax rows =
     (if rows = 0 \<or> (length dmax * ncols dmax) mod rows \<noteq> 0 then Inl ShapeError
      else Inr (map (\<lambda>r. map (\<lambda>q. mat_flat dmax (r * ((length dmax * ncols dmax) div rows) + q))
                             [0..<(length dmax * ncols dmax) div rows])
                  [0..<rows]))"

text \<open>
  \<open>backward\<close>. \<open>to_float\<close> stands for the cast \<open>.float()\<close> of the incoming gradient values
  to single precision (rounding is not modelled, so the cast is a parameter); the zeros of
  \<open>dmax\<close> are not cast. Before any forward call \<open>self.arg_max\<close> is \<open>None\<close>.
\<close>

definition Pooling_backward :: "(real \<Rightarrow> real) \<Rightarrow> Pooling \<Rightarrow> tensor4 \<Rightarrow> py_error + tensor4" where
  "Pooling_backward to_float self dout =
     (case (pool_x self, pool_arg_max self) of
        (Some x, Some am) \<Rightarrow>
          (case scatter_argmax (pool_h self * pool_w self) am
                  (map to_float (permute_flatten dout)) of
             Inl e \<Rightarrow> Inl e
           | Inr dmax \<Rightarrow>
               (case dims4 dout of (Nd, Cd, Hd, Wd) \<Rightarrow>
                  (case reshape_dcol dmax (Nd * Hd * Wd) of
                     Inl e \<Rightarrow> Inl e
                   | Inr dcol \<Rightarrow>
                       col2im dcol (dims4 x) (pool_h self) (pool_w self)
                         (pool_stride self) (pool_pad self))))
      | _ \<Rightarrow> Inl AttributeError)"

text \<open>A tensor given by nested lists, and the nested lists of a tensor.\<close>

definition tensor_of :: "nat \<times> nat \<times> nat \<times> nat \<Rightarrow> real list list list list \<Rightarrow> tensor4" where
  "tensor_of shape xs = \<lparr>dims4 = shape, elem4 = (\<lambda>n c h w. xs ! n ! c ! h ! w)\<rparr>"

definition to_lists :: "tensor4 \<Rightarrow> real list list list list" where
  "to_lists t =
     (case dims4 t of (N, C, H, W) \<Rightarrow>
        map (\<lambda>n. map (\<lambda>c. map (\<lambda>h. map (\<lambda>w. elem4 t n c h w) [0..<W]) [0..<H]) [0..<C])
          [0..<N])"

text \<open>
  For stating results: the number of the window \<open>(n, oh, ow)\<close> of channel \<open>c\<close> among the rows
  that \<open>forward\<close> takes the argmax of, and the values of that window, in the order of its
  row: position \<open>p\<close> of the window is the padded input at
  \<open>[n][c][oh * stride + p div pool_w][ow * stride + p mod pool_w]\<close>.
\<close>

definition window_index :: "nat \<Rightarrow> nat \<Rightarrow> nat \<Rightarrow> nat \<Rightarrow> nat \<Rightarrow> nat \<Rightarrow> nat \<Rightarrow> nat" where
  "window_index OH OW C n c oh ow = ((n * OH + oh) * OW + ow) * C + c"

definition window_values :: "Pooling \<Rightarrow> tensor4 \<Rightarrow> nat \<Rightarrow> nat \<Rightarrow> nat \<Rightarrow> nat \<Rightarrow> vec" where
  "window_values self x n c oh ow =
     map (\<lambda>p. padded x (pool_pad self) n c
                 (oh * pool_stride self + p div pool_w self)
                 (ow * pool_stride self + p mod pool_w self))
       [0..<pool_h self * pool_w self]"

section \<open>Theorems\<close>

lemma nth_sub_rows:
  "i < length x \<Longrightarrow> j < length (x ! i) \<Longrightarrow> j < length v
     \<Longrightarrow> sub_rows x v ! i ! j = x ! i ! j - v ! j"
  by (simp add: sub_rows_def)

lemma nth_div_rows:
  "i < length x \<Longrightarrow> j < length (x ! i) \<Longrightarrow> j < length v
     \<Longrightarrow> div_rows x v ! i ! j = x ! i ! j / v ! j"
  by (simp add: div_rows_def)

lemma nth_scale_shift:
  "i < length x \<Longrightarrow> j < length (x ! i) \<Longrightarrow> j < length g \<Longrightarrow> j < length b
     \<Longrightarrow> scale_shift g b x ! i ! j = g ! j * x ! i ! j + b ! j"
  by (simp add: scale_shift_def)

lemma length_sub_rows_nth:
  "i < length x \<Longrightarrow> length (sub_rows x v ! i) = min (length (x ! i)) (length v)"
  by (simp add: sub_rows_def)

lemma length_div_rows_nth:
  "i < length x \<Longrightarrow> length (div_rows x v ! i) = min (length (x ! i)) (length v)"
  by (simp add: div_rows_def)

lemma nth_mean_dim0:
  "j < ncols x \<Longrightarrow> mean_dim0 x ! j = (\<Sum>i < length x. x ! i ! j) / real (length x)"
  by (simp add: mean_dim0_def sum_list_sum_nth atLeast0LessThan)

lemma rows_ncols:
  "list_all (\<lambda>r. length r = ncols x) x \<Longrightarrow> i < length x \<Longrightarrow> length (x ! i) = ncols x"
  by (simp add: list_all_length)

lemma length_sub_rows [simp]: "length (sub_rows x v) = length x"
  by (simp add: sub_rows_def)

lemma length_div_rows [simp]: "length (div_rows x v) = length x"
  by (simp add: div_rows_def)

lemma length_sqrt_eps [simp]: "length (sqrt_eps v) = length v"
  by (simp add: sqrt_eps_def)

lemma nth_sqrt_eps: "j < length v \<Longrightarrow> sqrt_eps v ! j = sqrt (v ! j + bn_eps)"
  by (simp add: sqrt_eps_def)

lemma nth_square_mat:
  "i < length x \<Longrightarrow> j < length (x ! i) \<Longrightarrow> square_mat x ! i ! j = (x ! i ! j) ^ 2"
  by (simp add: square_mat_def)

lemma ncols_sub_rows:
  assumes "list_all (\<lambda>r. length r = ncols x) x" and "length v = ncols x"
  shows "ncols (square_mat (sub_rows x v)) = ncols x"
proof (cases x)
  case Nil
  then show ?thesis by (simp add: ncols_def square_mat_def sub_rows_def)
next
  case (Cons r rs)
  with assms show ?thesis by (simp add: ncols_def square_mat_def sub_rows_def)
qed

lemma length_mean_dim0 [simp]: "length (mean_dim0 x) = ncols x"
  by (simp add: mean_dim0_def)

text \<open>
  C8. In \<open>accuracy_f1score\<close>, a class whose precision denominator (column sum of the
  confusion matrix) is zero has precision \<open>0\<close>, a class whose recall denominator (row sum)
  is zero has recall \<open>0\<close>, and no per-class quotient is ever a division by zero: every
  entry of both lists is a finite number.
\<close>

theorem zero_denominator_policy:
  "(\<forall>i < labels. sum_axis0 labels cm ! i = 0 \<longrightarrow> precision labels cm ! i = Finite 0)
   \<and> (\<forall>i < labels. sum_axis1 cm ! i = 0 \<longrightarrow> recall labels cm ! i = Finite 0)
   \<and> (\<forall>v \<in> set (precision labels cm) \<union> set (recall labels cm). \<exists>r. v = Finite r)"
  by (auto simp: precision_def recall_def per_class_def)

theorem zero_denominator_policy_witness:
  "sum_axis0 2 [[0, 0], [0, 3]] ! 0 = 0 \<and> precision 2 [[0, 0], [0, 3]] ! 0 = Finite 0
   \<and> sum_axis1 [[0, 0], [0, 3]] ! 0 = 0 \<and> recall 2 [[0, 0], [0, 3]] ! 0 = Finite 0
   \<and> Finite 1 \<in> set (precision 2 [[0, 0], [0, 3]]) \<union> set (recall 2 [[0, 0], [0, 3]])"
  using zero_denominator_policy [of 2 "[[0, 0], [0, 3]]"]
  by (simp add: precision_def recall_def per_class_def sum_axis0_def sum_axis1_def
      upt_rec numeral_2_eq_2)

lemma fold_np_add_zeros:
  "fold (\<lambda>x acc. np_add acc x) (replicate n (Finite 0)) (Finite 0) = Finite 0"
  by (induction n) (simp_all del: fold_replicate)

lemma np_mean_zeros:
  "np_mean (replicate n (Finite 0)) = (if n = 0 then NaN else Finite 0)"
  unfolding np_mean_def fold_np_add_zeros by simp

lemma per_class_zero_diagonal:
  assumes "\<forall>i < labels. cm ! i ! i = 0"
  shows "per_class labels cm devider = replicate labels (Finite 0)"
proof (rule nth_equalityI)
  show "length (per_class labels cm devider) = length (replicate labels (Finite 0))"
    by (simp add: per_class_def)
next
  fix i assume "i < length (per_class labels cm devider)"
  then have "i < labels" by (simp add: per_class_def)
  with assms show "per_class labels cm devider ! i = replicate labels (Finite 0) ! i"
    by (simp add: per_class_def)
qed

text \<open>
  C10. The final combination \<open>2 * precision_avg * recall_avg / (precision_avg + recall_avg)\<close>
  has no guard: whenever both averages are \<open>0\<close> the quotient is \<open>0/0\<close> and the F1 value is
  \<open>nan\<close>; in particular every evaluation that returns a confusion matrix with an all-zero
  diagonal returns \<open>nan\<close> as its F1 score (neither \<open>0\<close> nor an error).
\<close>

theorem f1score_nan_on_zero_averages:
  "f1_combine (Finite 0) (Finite 0) = NaN
   \<and> (np_mean (precision labels cm) = Finite 0 \<and> np_mean (recall labels cm) = Finite 0
        \<longrightarrow> f1score_of labels cm = NaN)
   \<and> (accuracy_f1score labels classify x t bs = Inr (acc, f1, cm)
        \<and> (\<forall>i < labels. cm ! i ! i = 0) \<longrightarrow> f1 = NaN)"
proof (intro conjI impI)
  show z: "f1_combine (Finite 0) (Finite 0) = NaN"
    by (simp add: f1_combine_def)
  show "f1score_of labels cm = NaN"
    if "np_mean (precision labels cm) = Finite 0 \<and> np_mean (recall labels cm) = Finite 0"
    using that z by (simp add: f1score_of_def)
  show "f1 = NaN"
    if h: "accuracy_f1score labels classify x t bs = Inr (acc, f1, cm)
           \<and> (\<forall>i < labels. cm ! i ! i = 0)"
  proof -
    from h have f: "f1 = f1score_of labels cm"
      by (auto simp: accuracy_f1score_def split: if_splits sum.splits)
    from h have "precision labels cm = replicate labels (Finite 0)"
      and "recall labels cm = replicate labels (Finite 0)"
      by (simp_all add: precision_def recall_def per_class_zero_diagonal)
    then show ?thesis
      using f by (simp add: f1score_of_def np_mean_zeros f1_combine_def)
  qed
qed

theorem f1score_nan_on_zero_averages_witness:
  "accuracy_f1score 2 (map (\<lambda>c. 1 - c)) [0, 1] [0, 1] 1
     = Inr (Finite 0, NaN, [[0, 1], [1, 0]])
   \<and> np_mean (precision 2 [[0, 1], [1, 0]]) = Finite 0
   \<and> np_mean (recall 2 [[0, 1], [1, 0]]) = Finite 0
   \<and> f1score_of 2 [[0, 1], [1, 0]] = NaN"
proof -
  have a: "accuracy_f1score 2 (map (\<lambda>c. 1 - c)) [0::nat, 1] [0, 1] 1
     = Inr (Finite 0, f1score_of 2 [[0, 1], [1, 0]], [[0, 1], [1, 0]])"
    by (simp add: accuracy_f1score_def batch_slice_def zeros_matrix_def cm_incr_def
        accuracy_of_def upt_rec numeral_2_eq_2)
  have p: "np_mean (precision 2 [[0, 1], [1, 0]]) = Finite 0"
    by (simp add: np_mean_def precision_def per_class_def sum_axis0_def upt_rec numeral_2_eq_2)
  have r: "np_mean (recall 2 [[0, 1], [1, 0]]) = Finite 0"
    by (simp add: np_mean_def recall_def per_class_def sum_axis1_def upt_rec numeral_2_eq_2)
  from f1score_nan_on_zero_averages
    [of 2 "[[0, 1], [1, 0]]" "map (\<lambda>c. 1 - c)" "[0, 1]" "[0, 1]" 1 "Finite 0"
        "f1score_of 2 [[0, 1], [1, 0]]"]
  have "f1score_of 2 [[0, 1], [1, 0]] = NaN"
    using p r by blast
  with a p r show ?thesis by simp
qed

text \<open>
  C2 (as stated). A forward call with \<open>training = false\<close> is claimed, for every layer, to
  normalise with the running statistics and to leave the backward cache unpopulated.
  On a layer that has not yet run its batch branch (\<open>batch_size\<close> is \<open>None\<close>) the test
  \<open>train_flg or self.batch_size is None\<close> sends the call through the batch branch: the cache
  is populated and the output is normalised with the statistics of the batch. For the
  batch \<open>[[1], [3]]\<close> the output is \<open>[[-1 / sqrt (1 + 10e-7)], [1 / sqrt (1 + 10e-7)]]\<close>,
  whereas the running statistics (zero mean, zero variance) would give
  \<open>[[1 / sqrt 10e-7], [3 / sqrt 10e-7]]\<close>.
\<close>

theorem inference_first_call_counterexample:
  "BatchNormalization_private_forward
       (BatchNormalization_init [1] [0] (9 / 10) None None) [[1], [3]] False
     = Inr (\<lparr>gamma = [1], beta = [0], momentum = 9 / 10,
             running_mean = Some [0], running_var = Some [0],
             batch_size = Some 2, xc = Some [[-1], [1]],
             xn = Some [[-1 / sqrt (1 + bn_eps)], [1 / sqrt (1 + bn_eps)]],
             std = Some [sqrt (1 + bn_eps)]\<rparr>,
            [[-1 / sqrt (1 + bn_eps)], [1 / sqrt (1 + bn_eps)]])
   \<and> [[-1 / sqrt (1 + bn_eps)], [1 / sqrt (1 + bn_eps)]]
       \<noteq> scale_shift [1] [0] (div_rows (sub_rows [[1], [3]] [0]) (sqrt_eps [0]))"
proof
  show "BatchNormalization_private_forward
       (BatchNormalization_init [1] [0] (9 / 10) None None) [[1], [3]] False
     = Inr (\<lparr>gamma = [1], beta = [0], momentum = 9 / 10,
             running_mean = Some [0], running_var = Some [0],
             batch_size = Some 2, xc = Some [[-1], [1]],
             xn = Some [[-1 / sqrt (1 + bn_eps)], [1 / sqrt (1 + bn_eps)]],
             std = Some [sqrt (1 + bn_eps)]\<rparr>,
            [[-1 / sqrt (1 + bn_eps)], [1 / sqrt (1 + bn_eps)]])"
    by (simp add: BatchNormalization_private_forward_def BatchNormalization_init_def
        bn_shapes_ok_def ncols_def mean_dim0_def sub_rows_def square_mat_def sqrt_eps_def
        div_rows_def scale_shift_def Let_def)
next
  have "0 < bn_eps" by (simp add: bn_eps_def)
  then have "- 1 / sqrt (1 + bn_eps) < 0" and "0 < 1 / sqrt bn_eps"
    by simp_all
  then have "- 1 / sqrt (1 + bn_eps) \<noteq> 1 / sqrt bn_eps" by linarith
  then show "[[-1 / sqrt (1 + bn_eps)], [1 / sqrt (1 + bn_eps)]]
       \<noteq> scale_shift [1] [0] (div_rows (sub_rows [[1], [3]] [0]) (sqrt_eps [0]))"
    by (simp add: sub_rows_def sqrt_eps_def div_rows_def scale_shift_def)
qed

lemma batch_normalised_nth:
  assumes rows: "list_all (\<lambda>r. length r = ncols x) x" and i: "i < length x" and j: "j < ncols x"
  defines "M \<equiv> (\<Sum>k < length x. x ! k ! j) / real (length x)"
  defines "V \<equiv> (\<Sum>k < length x. (x ! k ! j - M) ^ 2) / real (length x)"
  shows "sub_rows x (mean_dim0 x) ! i ! j = x ! i ! j - M"
    and "sqrt_eps (mean_dim0 (square_mat (sub_rows x (mean_dim0 x)))) ! j = sqrt (V + bn_eps)"
    and "div_rows (sub_rows x (mean_dim0 x))
           (sqrt_eps (mean_dim0 (square_mat (sub_rows x (mean_dim0 x))))) ! i ! j
         = (x ! i ! j - M) / sqrt (V + bn_eps)"
    and "length (div_rows (sub_rows x (mean_dim0 x))
           (sqrt_eps (mean_dim0 (square_mat (sub_rows x (mean_dim0 x))))) ! i) = ncols x"
proof -
  let ?mu = "mean_dim0 x"
  let ?xc = "sub_rows x ?mu"
  let ?var = "mean_dim0 (square_mat ?xc)"
  have nc: "ncols (square_mat ?xc) = ncols x"
    using rows by (rule ncols_sub_rows) simp
  have lvar: "length ?var = ncols x" by (simp add: nc)
  have m: "?mu ! j = M"
    using j by (simp add: M_def nth_mean_dim0)
  have c: "?xc ! k ! j = x ! k ! j - M" if "k < length x" for k
    using that j rows m by (simp add: nth_sub_rows rows_ncols)
  have lc: "length (?xc ! k) = ncols x" if "k < length x" for k
    using that rows by (simp add: length_sub_rows_nth rows_ncols)
  have "?var ! j = (\<Sum>k < length (square_mat ?xc). square_mat ?xc ! k ! j)
                      / real (length (square_mat ?xc))"
    using j nc by (simp add: nth_mean_dim0)
  also have "length (square_mat ?xc) = length x"
    by (simp add: square_mat_def)
  also have "(\<Sum>k < length x. square_mat ?xc ! k ! j) = (\<Sum>k < length x. (x ! k ! j - M) ^ 2)"
  proof (rule sum.cong)
    fix k assume "k \<in> {..<length x}"
    then have k: "k < length x" by simp
    then have "square_mat ?xc ! k ! j = (?xc ! k ! j) ^ 2"
      using j lc by (simp add: nth_square_mat)
    then show "square_mat ?xc ! k ! j = (x ! k ! j - M) ^ 2"
      using c k by simp
  qed simp
  finally have v: "?var ! j = V" by (simp add: V_def)
  show 1: "?xc ! i ! j = x ! i ! j - M" using c i by simp
  show 2: "sqrt_eps ?var ! j = sqrt (V + bn_eps)"
    using j lvar v by (simp add: nth_sqrt_eps)
  have "div_rows ?xc (sqrt_eps ?var) ! i ! j = ?xc ! i ! j / sqrt_eps ?var ! j"
    using i j lc lvar by (simp add: nth_div_rows)
  then show "div_rows ?xc (sqrt_eps ?var) ! i ! j = (x ! i ! j - M) / sqrt (V + bn_eps)"
    using 1 2 by simp
  show "length (div_rows ?xc (sqrt_eps ?var) ! i) = ncols x"
    using i lc lvar by (simp add: length_div_rows_nth)
qed

text \<open>
  C2 (amended). A forward call with \<open>training = false\<close> on a layer whose \<open>batch_size\<close> is
  already set (it has run the batch branch before) normalises the input with the stored
  running mean and running variance, \<open>out = gamma * (x - running_mean) /
  sqrt (running_var + 10e-7) + beta\<close> (for \<open>running_var + 10e-7 > 0\<close>, where the quotient is
  finite), and returns the layer unchanged: neither the running statistics nor the cache
  (\<open>batch_size\<close>, \<open>xc\<close>, \<open>xn\<close>, \<open>std\<close>) is written. On a layer whose \<open>batch_size\<close> is still
  \<open>None\<close> the same call, on a non-empty batch, takes the batch branch: the output is
  \<open>gamma * (x - mu) / sqrt (var + 10e-7) + beta\<close> with \<open>mu\<close> and \<open>var\<close> the per-feature mean and
  biased variance of the batch, the cache is populated (\<open>batch_size\<close> the number of rows,
  \<open>xc = x - mu\<close>, \<open>xn = xc / std\<close>, \<open>std = sqrt (var + 10e-7)\<close>), and the running statistics
  are not averaged with the batch: they stay as stored, or are created as zero vectors
  when absent.
\<close>

theorem inference_uses_running_statistics:
  assumes "bn_shapes_ok self x"
  shows "(batch_size self \<noteq> None \<and> running_mean self = Some rm \<and> running_var self = Some rv
          \<and> length rm = ncols x \<and> length rv = ncols x
          \<and> (\<forall>j < ncols x. 0 < rv ! j + bn_eps) \<longrightarrow>
            (\<exists>out. BatchNormalization_private_forward self x False = Inr (self, out)
               \<and> length out = length x
               \<and> (\<forall>i < length x. length (out ! i) = ncols x
                    \<and> (\<forall>j < ncols x.
                          out ! i ! j
                          = gamma self ! j * ((x ! i ! j - rm ! j) / sqrt (rv ! j + bn_eps))
                            + beta self ! j))))
       \<and> (batch_size self = None \<and> x \<noteq> [] \<longrightarrow>
            (\<exists>s out xc' xn' std'.
                 BatchNormalization_private_forward self x False = Inr (s, out)
               \<and> gamma s = gamma self \<and> beta s = beta self \<and> momentum s = momentum self
               \<and> running_mean s = (if running_mean self = None
                                    then Some (replicate (ncols x) 0) else running_mean self)
               \<and> running_var s = (if running_mean self = None
                                   then Some (replicate (ncols x) 0) else running_var self)
               \<and> batch_size s = Some (length x)
               \<and> xc s = Some xc' \<and> xn s = Some xn' \<and> std s = Some std'
               \<and> length out = length x \<and> length xc' = length x \<and> length xn' = length x
               \<and> length std' = ncols x
               \<and> (\<forall>i < length x. \<forall>j < ncols x.
                     xc' ! i ! j = x ! i ! j - (\<Sum>k < length x. x ! k ! j) / real (length x)
                   \<and> std' ! j =
                       sqrt ((\<Sum>k < length x.
                               (x ! k ! j - (\<Sum>k < length x. x ! k ! j) / real (length x)) ^ 2)
                             / real (length x) + bn_eps)
                   \<and> xn' ! i ! j = xc' ! i ! j / std' ! j
                   \<and> length (out ! i) = ncols x
                   \<and> out ! i ! j = gamma self ! j * xn' ! i ! j + beta self ! j)))"
proof (intro conjI impI)
  assume h: "batch_size self \<noteq> None \<and> running_mean self = Some rm \<and> running_var self = Some rv
          \<and> length rm = ncols x \<and> length rv = ncols x
          \<and> (\<forall>j < ncols x. 0 < rv ! j + bn_eps)"
  let ?out = "scale_shift (gamma self) (beta self) (div_rows (sub_rows x rm) (sqrt_eps rv))"
  from h obtain n where n: "batch_size self = Some n" by auto
  from assms have rows: "list_all (\<lambda>r. length r = ncols x) x"
    and g: "length (gamma self) = ncols x" and bb: "length (beta self) = ncols x"
    by (simp_all add: bn_shapes_ok_def)
  from h have m: "length rm = ncols x" and v: "length rv = ncols x" by simp_all
  have run: "BatchNormalization_private_forward self x False = Inr (self, ?out)"
    using assms h n by (simp add: BatchNormalization_private_forward_def Let_def)
  have len: "length ?out = length x" by (simp add: scale_shift_def)
  have elt: "length (?out ! i) = ncols x
      \<and> (\<forall>j < ncols x. ?out ! i ! j
            = gamma self ! j * ((x ! i ! j - rm ! j) / sqrt (rv ! j + bn_eps)) + beta self ! j)"
    if i: "i < length x" for i
  proof -
    from rows i have r: "length (x ! i) = ncols x" by (simp add: rows_ncols)
    have l1: "length (sub_rows x rm ! i) = ncols x"
      using i r m by (simp add: length_sub_rows_nth)
    have l2: "length (div_rows (sub_rows x rm) (sqrt_eps rv) ! i) = ncols x"
      using i l1 v by (simp add: length_div_rows_nth)
    have l3: "length (?out ! i) = ncols x"
      using i l2 g bb by (simp add: scale_shift_def)
    have "?out ! i ! j
            = gamma self ! j * ((x ! i ! j - rm ! j) / sqrt (rv ! j + bn_eps)) + beta self ! j"
      if j: "j < ncols x" for j
    proof -
      have "?out ! i ! j
          = gamma self ! j * (div_rows (sub_rows x rm) (sqrt_eps rv) ! i ! j) + beta self ! j"
        using i j l2 g bb by (simp add: nth_scale_shift)
      also have "div_rows (sub_rows x rm) (sqrt_eps rv) ! i ! j
          = sub_rows x rm ! i ! j / sqrt_eps rv ! j"
        using i j l1 v by (simp add: nth_div_rows)
      also have "sub_rows x rm ! i ! j = x ! i ! j - rm ! j"
        using i j r m by (simp add: nth_sub_rows)
      also have "sqrt_eps rv ! j = sqrt (rv ! j + bn_eps)"
        using j v by (simp add: nth_sqrt_eps)
      finally show ?thesis .
    qed
    with l3 show ?thesis by simp
  qed
  from run len elt
  show "\<exists>out. BatchNormalization_private_forward self x False = Inr (self, out)
               \<and> length out = length x
               \<and> (\<forall>i < length x. length (out ! i) = ncols x
                    \<and> (\<forall>j < ncols x.
                          out ! i ! j
                          = gamma self ! j * ((x ! i ! j - rm ! j) / sqrt (rv ! j + bn_eps))
                            + beta self ! j))"
    by blast
next
  assume h: "batch_size self = None \<and> x \<noteq> []"
  let ?mu = "mean_dim0 x"
  let ?xc = "sub_rows x ?mu"
  let ?std = "sqrt_eps (mean_dim0 (square_mat ?xc))"
  let ?xn = "div_rows ?xc ?std"
  let ?out = "scale_shift (gamma self) (beta self) ?xn"
  let ?self1 = "if running_mean self = None
                then self\<lparr>running_mean := Some (replicate (ncols x) 0),
                          running_var := Some (replicate (ncols x) 0)\<rparr>
                else self"
  let ?s = "?self1\<lparr>batch_size := Some (length x), xc := Some ?xc, xn := Some ?xn,
                     std := Some ?std\<rparr>"
  from assms have rows: "list_all (\<lambda>r. length r = ncols x) x"
    and g: "length (gamma self) = ncols x" and bb: "length (beta self) = ncols x"
    by (simp_all add: bn_shapes_ok_def)
  have run: "BatchNormalization_private_forward self x False = Inr (?s, ?out)"
    using assms h by (simp add: BatchNormalization_private_forward_def Let_def)
  have nc: "ncols (square_mat ?xc) = ncols x"
    using rows by (rule ncols_sub_rows) simp
  have ls: "length ?std = ncols x" by (simp add: nc)
  have elt: "?xc ! i ! j = x ! i ! j - (\<Sum>k < length x. x ! k ! j) / real (length x)
           \<and> ?std ! j =
               sqrt ((\<Sum>k < length x.
                       (x ! k ! j - (\<Sum>k < length x. x ! k ! j) / real (length x)) ^ 2)
                     / real (length x) + bn_eps)
           \<and> ?xn ! i ! j = ?xc ! i ! j / ?std ! j
           \<and> length (?out ! i) = ncols x
           \<and> ?out ! i ! j = gamma self ! j * ?xn ! i ! j + beta self ! j"
    if ij: "i < length x" "j < ncols x" for i j
  proof -
    note b = batch_normalised_nth [OF rows ij]
    have lo: "length (?out ! i) = ncols x"
      using ij b(4) g bb by (simp add: scale_shift_def)
    have "?out ! i ! j = gamma self ! j * ?xn ! i ! j + beta self ! j"
      using ij b(4) g bb by (simp add: nth_scale_shift)
    with b lo show ?thesis by simp
  qed
  have "gamma ?s = gamma self \<and> beta ?s = beta self \<and> momentum ?s = momentum self
      \<and> running_mean ?s = (if running_mean self = None
                            then Some (replicate (ncols x) 0) else running_mean self)
      \<and> running_var ?s = (if running_mean self = None
                           then Some (replicate (ncols x) 0) else running_var self)
      \<and> batch_size ?s = Some (length x)
      \<and> xc ?s = Some ?xc \<and> xn ?s = Some ?xn \<and> std ?s = Some ?std"
    by simp
  moreover have "length ?out = length x \<and> length ?xc = length x \<and> length ?xn = length x"
    by (simp add: scale_shift_def)
  ultimately
  show "\<exists>s out xc' xn' std'.
                 BatchNormalization_private_forward self x False = Inr (s, out)
               \<and> gamma s = gamma self \<and> beta s = beta self \<and> momentum s = momentum self
               \<and> running_mean s = (if running_mean self = None
                                    then Some (replicate (ncols x) 0) else running_mean self)
               \<and> running_var s = (if running_mean self = None
                                   then Some (replicate (ncols x) 0) else running_var self)
               \<and> batch_size s = Some (length x)
               \<and> xc s = Some xc' \<and> xn s = Some xn' \<and> std s = Some std'
               \<and> length out = length x \<and> length xc' = length x \<and> length xn' = length x
               \<and> length std' = ncols x
               \<and> (\<forall>i < length x. \<forall>j < ncols x.
                     xc' ! i ! j = x ! i ! j - (\<Sum>k < length x. x ! k ! j) / real (length x)
                   \<and> std' ! j =
                       sqrt ((\<Sum>k < length x.
                               (x ! k ! j - (\<Sum>k < length x. x ! k ! j) / real (length x)) ^ 2)
                             / real (length x) + bn_eps)
                   \<and> xn' ! i ! j = xc' ! i ! j / std' ! j
                   \<and> length (out ! i) = ncols x
                   \<and> out ! i ! j = gamma self ! j * xn' ! i ! j + beta self ! j)"
    using run ls elt
    by (intro exI [of _ ?s] exI [of _ ?out] exI [of _ ?xc] exI [of _ ?xn] exI [of _ ?std])
       (simp only: simp_thms, blast)
qed

theorem inference_uses_running_statistics_witness:
  "BatchNormalization_private_forward
       \<lparr>gamma = [1], beta = [0], momentum = 9 / 10,
        running_mean = Some [2], running_var = Some [1],
        batch_size = Some 2, xc = None, xn = None, std = None\<rparr> [[1], [3]] False
     = Inr (\<lparr>gamma = [1], beta = [0], momentum = 9 / 10,
             running_mean = Some [2], running_var = Some [1],
             batch_size = Some 2, xc = None, xn = None, std = None\<rparr>,
            [[-1 / sqrt (1 + bn_eps)], [1 / sqrt (1 + bn_eps)]])
   \<and> BatchNormalization_private_forward
       (BatchNormalization_init [1] [0] (9 / 10) None None) [[1], [3]] False
     = Inr (\<lparr>gamma = [1], beta = [0], momentum = 9 / 10,
             running_mean = Some [0], running_var = Some [0],
             batch_size = Some 2, xc = Some [[-1], [1]],
             xn = Some [[-1 / sqrt (1 + bn_eps)], [1 / sqrt (1 + bn_eps)]],
             std = Some [sqrt (1 + bn_eps)]\<rparr>,
            [[-1 / sqrt (1 + bn_eps)], [1 / sqrt (1 + bn_eps)]])"
proof -
  let ?t = "\<lparr>gamma = [1], beta = [0], momentum = 9 / 10,
        running_mean = Some [2], running_var = Some [1],
        batch_size = Some 2, xc = None, xn = None, std = None\<rparr>"
  let ?f = "BatchNormalization_init [1] [0] (9 / 10) None None"
  have ok1: "bn_shapes_ok ?t [[1], [3]]"
    by (simp add: bn_shapes_ok_def ncols_def)
  have h1: "batch_size ?t \<noteq> None \<and> running_mean ?t = Some [2] \<and> running_var ?t = Some [1]
          \<and> length [2 :: real] = ncols [[1], [3]] \<and> length [1 :: real] = ncols [[1], [3]]
          \<and> (\<forall>j < ncols [[1], [3]]. 0 < [1] ! j + bn_eps)"
    by (simp add: ncols_def bn_eps_def)
  from inference_uses_running_statistics [OF ok1, of "[2]" "[1]"] h1
  obtain out where r1: "BatchNormalization_private_forward ?t [[1], [3]] False = Inr (?t, out)"
    by blast
  have ok2: "bn_shapes_ok ?f [[1], [3]]"
    by (simp add: bn_shapes_ok_def ncols_def BatchNormalization_init_def)
  have h2: "batch_size ?f = None \<and> [[1], [3 :: real]] \<noteq> []"
    by (simp add: BatchNormalization_init_def)
  from inference_uses_running_statistics [OF ok2] h2
  obtain s out2 where r2: "BatchNormalization_private_forward ?f [[1], [3]] False = Inr (s, out2)"
    and "batch_size s = Some (length [[1], [3 :: real]])"
    by blast
  from r1 have "out = [[-1 / sqrt (1 + bn_eps)], [1 / sqrt (1 + bn_eps)]]"
    by (simp add: BatchNormalization_private_forward_def bn_shapes_ok_def ncols_def
        sub_rows_def sqrt_eps_def div_rows_def scale_shift_def)
  moreover from r2 have "s = \<lparr>gamma = [1], beta = [0], momentum = 9 / 10,
             running_mean = Some [0], running_var = Some [0],
             batch_size = Some 2, xc = Some [[-1], [1]],
             xn = Some [[-1 / sqrt (1 + bn_eps)], [1 / sqrt (1 + bn_eps)]],
             std = Some [sqrt (1 + bn_eps)]\<rparr>
        \<and> out2 = [[-1 / sqrt (1 + bn_eps)], [1 / sqrt (1 + bn_eps)]]"
    by (simp add: BatchNormalization_private_forward_def BatchNormalization_init_def
        bn_shapes_ok_def ncols_def mean_dim0_def sub_rows_def square_mat_def sqrt_eps_def
        div_rows_def scale_shift_def Let_def) auto
  ultimately show ?thesis using r1 r2 by simp
qed

text \<open>
  C5 (as stated). The claim fixes the constant at \<open>1e-7\<close>. The source adds the literal
  \<open>10e-7\<close>, which is \<open>1e-6\<close>: for the batch \<open>[[1], [3]]\<close> (mean \<open>2\<close>, variance \<open>1\<close>) the
  cached \<open>xn\<close> is \<open>\<plusminus>1 / sqrt (1 + 1e-6)\<close>, not \<open>\<plusminus>1 / sqrt (1 + 1e-7)\<close>.
\<close>

theorem epsilon_counterexample:
  "BatchNormalization_private_forward
       (BatchNormalization_init [1] [0] (9 / 10) None None) [[1], [3]] True
     = Inr (\<lparr>gamma = [1], beta = [0], momentum = 9 / 10,
             running_mean = Some [1 / 5], running_var = Some [1 / 10],
             batch_size = Some 2, xc = Some [[-1], [1]],
             xn = Some [[-1 / sqrt (1 + 1 / 10 ^ 6)], [1 / sqrt (1 + 1 / 10 ^ 6)]],
             std = Some [sqrt (1 + 1 / 10 ^ 6)]\<rparr>,
            [[-1 / sqrt (1 + 1 / 10 ^ 6)], [1 / sqrt (1 + 1 / 10 ^ 6)]])
   \<and> [[-1 / sqrt (1 + 1 / 10 ^ 6)], [1 / sqrt (1 + 1 / 10 ^ 6)]]
       \<noteq> [[(1 - 2) / sqrt (1 + 1 / 10 ^ 7)], [(3 - 2) / sqrt (1 + 1 / 10 ^ 7 :: real)]]"
proof
  show "BatchNormalization_private_forward
       (BatchNormalization_init [1] [0] (9 / 10) None None) [[1], [3]] True
     = Inr (\<lparr>gamma = [1], beta = [0], momentum = 9 / 10,
             running_mean = Some [1 / 5], running_var = Some [1 / 10],
             batch_size = Some 2, xc = Some [[-1], [1]],
             xn = Some [[-1 / sqrt (1 + 1 / 10 ^ 6)], [1 / sqrt (1 + 1 / 10 ^ 6)]],
             std = Some [sqrt (1 + 1 / 10 ^ 6)]\<rparr>,
            [[-1 / sqrt (1 + 1 / 10 ^ 6)], [1 / sqrt (1 + 1 / 10 ^ 6)]])"
    by (simp add: BatchNormalization_private_forward_def BatchNormalization_init_def
        bn_shapes_ok_def ncols_def mean_dim0_def sub_rows_def square_mat_def sqrt_eps_def
        div_rows_def scale_shift_def moving_average_def bn_eps_def Let_def)
next
  have "sqrt (1 + 1 / 10 ^ 6) \<noteq> sqrt (1 + 1 / 10 ^ 7 :: real)"
    by (simp only: real_sqrt_eq_iff) simp
  moreover have "0 < sqrt (1 + 1 / 10 ^ 6 :: real)" and "0 < sqrt (1 + 1 / 10 ^ 7 :: real)"
    by (simp_all only: real_sqrt_gt_0_iff) simp_all
  ultimately have "1 / sqrt (1 + 1 / 10 ^ 6) \<noteq> 1 / sqrt (1 + 1 / 10 ^ 7 :: real)"
    by (simp add: field_simps)
  then show "[[-1 / sqrt (1 + 1 / 10 ^ 6)], [1 / sqrt (1 + 1 / 10 ^ 6)]]
       \<noteq> [[(1 - 2) / sqrt (1 + 1 / 10 ^ 7)], [(3 - 2) / sqrt (1 + 1 / 10 ^ 7 :: real)]]"
    by simp
qed

text \<open>
  C5 (amended). In training mode \<open>forward\<close> caches \<open>xn = (x - mu) / sqrt (var + \<epsilon>)\<close>, with
  \<open>mu\<close> and \<open>var\<close> the per-feature mean and (biased) variance of the batch, and the
  constant fixed at the literal \<open>10e-7\<close>, that is \<open>1e-6\<close>.
\<close>

theorem training_normalisation:
  assumes "bn_shapes_ok self x" and "x \<noteq> []" and "bn_stats_ok self x"
  shows "\<exists>s out xn'.
           BatchNormalization_private_forward self x True = Inr (s, out)
         \<and> xn s = Some xn' \<and> length xn' = length x
         \<and> (\<forall>i < length x. \<forall>j < ncols x.
               xn' ! i ! j =
                 (x ! i ! j - (\<Sum>k < length x. x ! k ! j) / real (length x))
                 / sqrt ((\<Sum>k < length x.
                            (x ! k ! j - (\<Sum>k < length x. x ! k ! j) / real (length x)) ^ 2)
                         / real (length x) + 1 / 10 ^ 6))"
proof -
  define mu where "mu = mean_dim0 x"
  define xc' where "xc' = sub_rows x mu"
  define var where "var = mean_dim0 (square_mat xc')"
  define xn' where "xn' = div_rows xc' (sqrt_eps var)"
  from assms(1) have rows: "list_all (\<lambda>r. length r = ncols x) x"
    by (simp add: bn_shapes_ok_def)
  have lmu: "length mu = ncols x" by (simp add: mu_def)
  have nc: "ncols (square_mat xc') = ncols x"
    unfolding xc'_def using rows lmu by (rule ncols_sub_rows)
  have lvar: "length var = ncols x" by (simp add: var_def nc)
  have run: "\<exists>s out. BatchNormalization_private_forward self x True = Inr (s, out)
               \<and> xn s = Some xn'"
    using assms
    by (auto simp: BatchNormalization_private_forward_def Let_def mu_def xc'_def var_def
        xn'_def bn_stats_ok_def split: option.splits)
  have len: "length xn' = length x" by (simp add: xn'_def xc'_def)
  have elt: "xn' ! i ! j =
                 (x ! i ! j - (\<Sum>k < length x. x ! k ! j) / real (length x))
                 / sqrt ((\<Sum>k < length x.
                            (x ! k ! j - (\<Sum>k < length x. x ! k ! j) / real (length x)) ^ 2)
                         / real (length x) + 1 / 10 ^ 6)"
    if ij: "i < length x" "j < ncols x" for i j
  proof -
    have m: "mu ! j = (\<Sum>k < length x. x ! k ! j) / real (length x)"
      using ij by (simp add: mu_def nth_mean_dim0)
    have c: "xc' ! k ! j = x ! k ! j - mu ! j" if "k < length x" for k
      using that ij rows lmu by (simp add: xc'_def nth_sub_rows rows_ncols)
    have lc: "length (xc' ! k) = ncols x" if "k < length x" for k
      using that rows lmu by (simp add: xc'_def length_sub_rows_nth rows_ncols)
    have "var ! j = (\<Sum>k < length (square_mat xc'). square_mat xc' ! k ! j)
                      / real (length (square_mat xc'))"
      unfolding var_def using ij nc by (simp add: nth_mean_dim0)
    also have "length (square_mat xc') = length x"
      by (simp add: square_mat_def xc'_def)
    also have "(\<Sum>k < length x. square_mat xc' ! k ! j)
                 = (\<Sum>k < length x. (x ! k ! j - mu ! j) ^ 2)"
    proof (rule sum.cong)
      fix k assume "k \<in> {..<length x}"
      then have k: "k < length x" by simp
      then have "square_mat xc' ! k ! j = (xc' ! k ! j) ^ 2"
        using ij lc by (simp add: nth_square_mat xc'_def)
      then show "square_mat xc' ! k ! j = (x ! k ! j - mu ! j) ^ 2"
        using c k by simp
    qed simp
    finally have v: "var ! j = (\<Sum>k < length x. (x ! k ! j - mu ! j) ^ 2) / real (length x)" .
    have "xn' ! i ! j = xc' ! i ! j / sqrt_eps var ! j"
      unfolding xn'_def using ij lc lvar by (simp add: nth_div_rows xc'_def)
    also have "\<dots> = (x ! i ! j - mu ! j) / sqrt (var ! j + bn_eps)"
      using ij c lvar by (simp add: nth_sqrt_eps)
    finally show ?thesis
      by (simp add: m v bn_eps_def)
  qed
  from run len elt show ?thesis by blast
qed

theorem training_normalisation_witness:
  "\<exists>s out xn'.
     BatchNormalization_private_forward
       (BatchNormalization_init [1] [0] (9 / 10) None None) [[1], [3]] True = Inr (s, out)
     \<and> xn s = Some xn'
     \<and> xn' ! 0 ! 0 = (1 - (1 + 3) / 2) / sqrt (((1 - (1 + 3) / 2) ^ 2 + (3 - (1 + 3) / 2) ^ 2) / 2
                                            + 1 / 10 ^ 6)"
proof -
  from training_normalisation
    [of "BatchNormalization_init [1] [0] (9 / 10) None None" "[[1], [3]]"]
  obtain s out xn' where
    "BatchNormalization_private_forward
       (BatchNormalization_init [1] [0] (9 / 10) None None) [[1], [3]] True = Inr (s, out)"
    "xn s = Some xn'"
    "\<forall>i < length [[1], [3 :: real]]. \<forall>j < ncols [[1], [3]].
               xn' ! i ! j =
                 ([[1], [3]] ! i ! j - (\<Sum>k < length [[1], [3::real]]. [[1], [3]] ! k ! j)
                     / real (length [[1], [3::real]]))
                 / sqrt ((\<Sum>k < length [[1], [3::real]].
                            ([[1], [3]] ! k ! j - (\<Sum>k < length [[1], [3::real]]. [[1], [3]] ! k ! j)
                                / real (length [[1], [3::real]])) ^ 2)
                         / real (length [[1], [3::real]]) + 1 / 10 ^ 6)"
    by (auto simp: bn_shapes_ok_def bn_stats_ok_def ncols_def BatchNormalization_init_def)
  moreover from this(3) have "xn' ! 0 ! 0 =
      (1 - (1 + 3) / 2) / sqrt (((1 - (1 + 3) / 2) ^ 2 + (3 - (1 + 3) / 2) ^ 2) / 2
                                            + 1 / 10 ^ 6)"
    by (simp add: ncols_def lessThan_Suc numeral_2_eq_2)
  ultimately show ?thesis by blast
qed

lemma index_sub_one_spec:
  assumes "index_sub_one dx idx i0 = Inr dx'"
  shows "length dx' = length dx
       \<and> (\<forall>r < length dx. dx' ! r =
             (if i0 \<le> r \<and> r < i0 + length idx
              then (dx ! r)[idx ! (r - i0) := dx ! r ! (idx ! (r - i0)) - 1]
              else dx ! r))"
  using assms
proof (induction idx arbitrary: dx i0)
  case Nil
  then show ?case by auto
next
  case (Cons c cs)
  let ?dx1 = "dx[i0 := (dx ! i0)[c := dx ! i0 ! c - 1]]"
  from Cons.prems have ok: "i0 < length dx" "c < length (dx ! i0)"
    and rest: "index_sub_one ?dx1 cs (Suc i0) = Inr dx'"
    by (auto split: if_splits)
  from Cons.IH [OF rest]
  have len: "length dx' = length dx"
    and elt: "\<And>r. r < length dx \<Longrightarrow> dx' ! r =
             (if Suc i0 \<le> r \<and> r < Suc i0 + length cs
              then (?dx1 ! r)[cs ! (r - Suc i0) := ?dx1 ! r ! (cs ! (r - Suc i0)) - 1]
              else ?dx1 ! r)"
    by simp_all
  have "dx' ! r = (if i0 \<le> r \<and> r < i0 + length (c # cs)
              then (dx ! r)[(c # cs) ! (r - i0) := dx ! r ! ((c # cs) ! (r - i0)) - 1]
              else dx ! r)" if r: "r < length dx" for r
  proof (cases "r = i0")
    case True
    then show ?thesis using elt [OF r] ok by simp
  next
    case False
    then show ?thesis using elt [OF r] r
      by (cases "i0 < r") (auto simp: nth_Cons' Suc_diff_Suc)
  qed
  with len show ?case by blast
qed

text \<open>
  The class-index branch: when \<open>backward\<close> returns on a 1-D integer target, the gradient
  is \<open>y\<close> with \<open>1\<close> subtracted at the true-class index of each row, divided by the batch
  size; and it returns whenever every index lies inside its row.
\<close>

lemma gradient_class_indices:
  assumes "softmax_y self = Some ya" and "softmax_t self = Some ta" and "ta \<noteq> ya"
    and "st ya = Some (FloatT yv)" and "st ta = Some (LongT idx)"
    and "SoftmaxWithLoss_backward self st = Inr dx"
    and "i < length yv" and "j < length (yv ! i)"
  shows "dx ! i ! j = (yv ! i ! j - (if i < length idx \<and> j = idx ! i then 1 else 0))
                      / real (length idx)"
proof -
  from assms(1-6) obtain d where d: "index_sub_one yv idx 0 = Inr d"
    and dx: "dx = div_scalar d (length idx)"
    by (auto simp: SoftmaxWithLoss_backward_def size_attr_eq_def shape0_def split: sum.splits)
  from index_sub_one_spec [OF d] assms(7)
  have len: "length d = length yv"
    and row: "d ! i = (if i < length idx then (yv ! i)[idx ! i := yv ! i ! (idx ! i) - 1] else yv ! i)"
    by simp_all
  have lr: "length (d ! i) = length (yv ! i)" using row by simp
  have "dx ! i ! j = d ! i ! j / real (length idx)"
    using dx len lr assms(7,8) by (simp add: div_scalar_def)
  also have "d ! i ! j = yv ! i ! j - (if i < length idx \<and> j = idx ! i then 1 else 0)"
    using row assms(8) by (auto simp: nth_list_update)
  finally show ?thesis .
qed

lemma class_indices_returns:
  assumes "softmax_y self = Some ya" and "softmax_t self = Some ta" and "ta \<noteq> ya"
    and "st ya = Some (FloatT yv)" and "st ta = Some (LongT idx)"
    and "length idx \<le> length yv" and "\<forall>i < length idx. idx ! i < length (yv ! i)"
  shows "\<exists>dx. SoftmaxWithLoss_backward self st = Inr dx"
proof -
  have "\<exists>d. index_sub_one dx0 cs i0 = Inr d"
    if "i0 + length cs \<le> length dx0" "\<forall>k < length cs. cs ! k < length (dx0 ! (i0 + k))"
    for dx0 cs i0
    using that
  proof (induction cs arbitrary: dx0 i0)
    case Nil
    then show ?case by simp
  next
    case (Cons c cs)
    let ?dx1 = "dx0[i0 := (dx0 ! i0)[c := dx0 ! i0 ! c - 1]]"
    from Cons.prems have a: "i0 < length dx0" "c < length (dx0 ! i0)" by auto
    have "\<forall>k < length cs. cs ! k < length (?dx1 ! (Suc i0 + k))"
    proof (intro allI impI)
      fix k assume k: "k < length cs"
      with Cons.prems(2) have "(c # cs) ! Suc k < length (dx0 ! (i0 + Suc k))" by auto
      then show "cs ! k < length (?dx1 ! (Suc i0 + k))" by simp
    qed
    moreover have "Suc i0 + length cs \<le> length ?dx1" using Cons.prems(1) by simp
    ultimately have "\<exists>d. index_sub_one ?dx1 cs (Suc i0) = Inr d" by (rule Cons.IH [rotated])
    with a show ?case by simp
  qed
  from this [of 0 idx yv] assms(6,7) obtain d where "index_sub_one yv idx 0 = Inr d" by auto
  with assms(1-5) show ?thesis
    by (simp add: SoftmaxWithLoss_backward_def size_attr_eq_def shape0_def)
qed

text \<open>
  C1 (the code at a one-hot target). With the cached softmax output
  \<open>y = [[1/2, 1/2]]\<close> and the one-hot target \<open>t = [[1, 0]]\<close>, two distinct tensor objects
  with the same element count, the claim gives the gradient \<open>(y - t) / 1 = [[-1/2, 1/2]]\<close>.
  The test \<open>self.t.size == self.y.size\<close> is false for two distinct tensors, the index
  branch runs with the float matrix as index, and \<open>backward\<close> raises. With class indices
  (\<open>t = [0]\<close>) the same layer returns \<open>[[-1/2, 1/2]]\<close>.
\<close>

theorem backward_one_hot_raises:
  "SoftmaxWithLoss_backward \<lparr>softmax_y = Some 1, softmax_t = Some 2\<rparr>
      [1 \<mapsto> FloatT [[1 / 2, 1 / 2]], 2 \<mapsto> FloatT [[1, 0]]] = Inl IndexError
   \<and> div_scalar (sub_mat [[1 / 2, 1 / 2]] [[1, 0]]) 1 = [[- 1 / 2, 1 / 2]]
   \<and> SoftmaxWithLoss_backward \<lparr>softmax_y = Some 1, softmax_t = Some 2\<rparr>
      [1 \<mapsto> FloatT [[1 / 2, 1 / 2]], 2 \<mapsto> LongT [0]] = Inr [[- 1 / 2, 1 / 2]]"
  by (simp add: SoftmaxWithLoss_backward_def size_attr_eq_def shape0_def div_scalar_def
      sub_mat_def)

lemma digit_char_small:
  "digit_char (Suc 0) = CHR ''1''" "digit_char 2 = CHR ''2''" "digit_char 3 = CHR ''3''"
  by code_simp+

lemma key_small [simp]:
  "key p (Suc 0) = p @ ''1''" "key p 2 = p @ ''2''" "key p 3 = p @ ''3''"
  by (simp_all add: key_def digit_char_small)

lemma CNN_load_params_shares:
  assumes "load_params net loaded = Inr net'"
  shows "shares_params CNN_binding net'"
  using assms
  by (auto simp: load_params_def shares_params_def CNN_binding_def enumerate_eq_zip
      upt_rec numeral_2_eq_2 numeral_3_eq_3
      split: option.splits)

text \<open>
  C3 (the code on a VGG16 network). A freshly built VGG16 network satisfies the sharing
  invariant for \<open>Conv1..Conv13\<close> / \<open>W1..W13\<close> and \<open>Affine1..Affine3\<close> / \<open>W14..W16\<close>. After
  \<open>load_params\<close> with a file of sixteen new parameter pairs the invariant is lost: the
  loop rebinds only \<open>Conv1\<close>, \<open>Affine1\<close> and \<open>Affine2\<close>, and binds \<open>Affine1\<close> to
  the loaded \<open>W2\<close>/\<open>b2\<close> (not \<open>W14\<close>/\<open>b14\<close>), while \<open>Conv2\<close> still refers to the tensor
  objects created by \<open>__init__\<close>, which \<open>self.params\<close> no longer holds.
\<close>

theorem VGG16_load_params_breaks_sharing:
  "shares_params VGG16_binding (VGG16_init 0)
   \<and> (case load_params (VGG16_init 0) (fresh_params 100 16) of
        Inl e \<Rightarrow> False
      | Inr net \<Rightarrow>
          \<not> shares_params VGG16_binding net
          \<and> net_layers net ''Affine1'' = Some \<lparr>layer_W = 104, layer_b = 105\<rparr>
          \<and> net_params net ''W2'' = Some 104
          \<and> net_params net ''W14'' = Some 128
          \<and> net_layers net ''Conv2'' = Some \<lparr>layer_W = 4, layer_b = 5\<rparr>)"
  by code_simp





lemma zeros_matrix_diag: "zeros_matrix labels = diag_matrix labels (\<lambda>_. 0)"
  by (auto simp: zeros_matrix_def diag_matrix_def intro!: nth_equalityI)

lemma cm_incr_diag:
  assumes "c < labels"
  shows "cm_incr (diag_matrix labels f) c c = Inr (diag_matrix labels (f(c := f c + 1)))"
proof -
  have "(diag_matrix labels f)[c := (diag_matrix labels f ! c)[c := diag_matrix labels f ! c ! c + 1]]
        = diag_matrix labels (f(c := f c + 1))"
    using assms by (auto simp: diag_matrix_def nth_list_update intro!: nth_equalityI)
  then show ?thesis using assms by (simp add: cm_incr_def diag_matrix_def)
qed

lemma count_batch_diag:
  assumes "ps = drop j tt" and "\<forall>c \<in> set tt. c < labels"
  shows "count_batch (diag_matrix labels f) tt ps j
         = Inr (diag_matrix labels (\<lambda>c. f c + real (count_list ps c)))"
  using assms
proof (induction ps arbitrary: j f)
  case Nil
  then show ?case by simp
next
  case (Cons p ps)
  from Cons.prems(1) have j: "j < length tt"
    by (metis drop_eq_Nil list.distinct(1) not_le)
  with Cons.prems(1) have p: "tt ! j = p" and rest: "ps = drop (Suc j) tt"
    by (simp_all add: Cons_nth_drop_Suc [symmetric])
  from j p Cons.prems(2) have pl: "p < labels" by auto
  have "count_batch (diag_matrix labels f) tt (p # ps) j
        = count_batch (diag_matrix labels (f(p := f p + 1))) tt ps (Suc j)"
    using j p pl by (simp add: cm_incr_diag)
  also have "\<dots> = Inr (diag_matrix labels (\<lambda>c. (f(p := f p + 1)) c + real (count_list ps c)))"
    using rest Cons.prems(2) by (rule Cons.IH)
  also have "(\<lambda>c. (f(p := f p + 1)) c + real (count_list ps c))
             = (\<lambda>c. f c + real (count_list (p # ps) c))"
    by auto
  finally show ?case .
qed

lemma count_batches_diag:
  assumes "\<forall>i \<in> set is. classify (batch_slice x i bs) = batch_slice t i bs"
    and "\<forall>c \<in> set t. c < labels"
  shows "count_batches classify x t bs is (diag_matrix labels f)
         = Inr (diag_matrix labels
                  (\<lambda>c. f c + real (count_list (concat (map (\<lambda>i. batch_slice t i bs) is)) c)))"
  using assms(1)
proof (induction "is" arbitrary: f)
  case Nil
  then show ?case by simp
next
  case (Cons i "is")
  have sub: "\<forall>c \<in> set (batch_slice t i bs). c < labels"
    using assms(2) by (auto simp: batch_slice_def dest: in_set_takeD in_set_dropD)
  have "count_batch (diag_matrix labels f) (batch_slice t i bs) (batch_slice t i bs) 0
        = Inr (diag_matrix labels (\<lambda>c. f c + real (count_list (batch_slice t i bs) c)))"
    using sub by (intro count_batch_diag) simp_all
  moreover have "classify (batch_slice x i bs) = batch_slice t i bs"
    using Cons.prems by simp
  moreover have "count_batches classify x t bs is
           (diag_matrix labels (\<lambda>c. f c + real (count_list (batch_slice t i bs) c)))
         = Inr (diag_matrix labels
                  (\<lambda>c. (f c + real (count_list (batch_slice t i bs) c))
                       + real (count_list (concat (map (\<lambda>i. batch_slice t i bs) is)) c)))"
    using Cons.prems by (intro Cons.IH) simp
  ultimately show ?case by (simp add: add.assoc)
qed

lemma concat_batches: "concat (map (\<lambda>i. batch_slice t i bs) [0..<nb]) = take (nb * bs) t"
proof (induction nb)
  case 0
  then show ?case by simp
next
  case (Suc nb)
  have "take (Suc nb * bs) t = take (nb * bs + bs) t" by (simp add: add.commute)
  also have "\<dots> = take (nb * bs) t @ take bs (drop (nb * bs) t)" by (rule take_add)
  finally show ?case using Suc by (simp add: batch_slice_def)
qed

lemma sum_list_diag_row:
  "sum_list (map (\<lambda>j. if i = j then a else (0::real)) [0..<n]) = (if i < n then a else 0)"
  by (induction n) auto

lemma nth_diag [simp]: "i < n \<Longrightarrow> j < n \<Longrightarrow> diag_matrix n f ! i ! j = (if i = j then f i else 0)"
  by (simp add: diag_matrix_def)

lemma length_diag [simp]: "length (diag_matrix n f) = n"
  by (simp add: diag_matrix_def)

lemma sum_axis0_diag: "sum_axis0 n (diag_matrix n f) = map f [0..<n]"
proof (rule nth_equalityI)
  show "length (sum_axis0 n (diag_matrix n f)) = length (map f [0..<n])"
    by (simp add: sum_axis0_def)
next
  fix j assume "j < length (sum_axis0 n (diag_matrix n f))"
  then have j: "j < n" by (simp add: sum_axis0_def)
  have "map (\<lambda>r. r ! j) (diag_matrix n f) = map (\<lambda>i. if j = i then f j else 0) [0..<n]"
    using j by (auto simp: diag_matrix_def)
  then show "sum_axis0 n (diag_matrix n f) ! j = map f [0..<n] ! j"
    using j by (simp add: sum_axis0_def sum_list_diag_row)
qed

lemma sum_axis1_diag: "sum_axis1 (diag_matrix n f) = map f [0..<n]"
  by (auto simp: sum_axis1_def diag_matrix_def sum_list_diag_row intro!: nth_equalityI)

lemma per_class_ones:
  assumes "\<forall>i < n. f i \<noteq> 0"
  shows "per_class n (diag_matrix n f) (map f [0..<n]) = replicate n (Finite 1)"
  using assms by (auto simp: per_class_def intro!: nth_equalityI)

lemma fold_np_add_ones:
  "fold (\<lambda>x acc. np_add acc x) (replicate n (Finite 1)) (Finite a) = Finite (a + real n)"
  by (induction n arbitrary: a) (simp_all del: fold_replicate add: add.assoc)

lemma np_mean_ones: "0 < n \<Longrightarrow> np_mean (replicate n (Finite 1)) = Finite 1"
  unfolding np_mean_def fold_np_add_ones by simp

lemma diag_sum_counts:
  assumes "\<forall>c \<in> set t. c < n"
  shows "sum_list (map (\<lambda>i. real (count_list t i)) [0..<n]) = real (length t)"
proof -
  have "sum_list (map (\<lambda>i. real (count_list t i)) [0..<n]) = (\<Sum>i \<in> {0..<n}. real (count_list t i))"
    by (simp add: interv_sum_list_conv_sum_set_nat)
  also have "\<dots> = real (\<Sum>i \<in> {0..<n}. count_list t i)" by simp
  also have "(\<Sum>i \<in> {0..<n}. count_list t i) = length t"
    using assms by (intro sum_count_set) auto
  finally show ?thesis .
qed

text \<open>
  C4 (as stated). With perfect predictions the claim gives \<open>F1 = 1.0\<close>. The averages run
  over all \<open>output_size\<close> classes, and a class that does not occur among the evaluated
  samples has precision and recall \<open>0\<close> by the zero-denominator policy: for two classes
  and the single, correctly classified sample of class \<open>0\<close> the accuracy is \<open>1\<close> but the
  F1 score is \<open>1/2\<close>. (The network is the identity on class numbers here.)
\<close>

theorem perfect_predictions_counterexample:
  "accuracy_f1score 2 id [0] [0] 1 = Inr (Finite 1, Finite (1 / 2), [[1, 0], [0, 0]])"
  by (simp add: accuracy_f1score_def batch_slice_def zeros_matrix_def cm_incr_def
      accuracy_of_def f1score_of_def f1_combine_def np_mean_def precision_def recall_def
      per_class_def sum_axis0_def sum_axis1_def upt_conv_Cons numeral_2_eq_2)

text \<open>
  The remainder batch: three correctly classified samples evaluated with
  \<open>batch_size = 2\<close>. One batch is counted, the third sample is not, and the accuracy is
  \<open>2/3\<close>.
\<close>

lemma remainder_batch_dropped:
  "accuracy_f1score 1 id [0, 0, 0] [0, 0, 0] 2 = Inr (Finite (2 / 3), Finite 1, [[2]])"
  by (simp add: accuracy_f1score_def batch_slice_def zeros_matrix_def cm_incr_def
      accuracy_of_def f1score_of_def f1_combine_def np_mean_def precision_def recall_def
      per_class_def sum_axis0_def sum_axis1_def upt_conv_Cons)

text \<open>
  C4 (amended). For every non-empty input set \<open>x\<close> with labels \<open>t\<close> (class numbers below
  \<open>output_size\<close>) on which the network's predictions are all correct, when \<open>batch_size\<close>
  divides the number of samples and every class occurs among the labels,
  \<open>accuracy_f1score\<close> returns accuracy \<open>1.0\<close>, F1 \<open>1.0\<close> and the confusion matrix that holds
  the number of samples of class \<open>i\<close> at the diagonal position \<open>i\<close> and zero at every
  off-diagonal position.
\<close>

theorem perfect_predictions_metrics:
  assumes "0 < bs" and "bs dvd length x" and "length t = length x" and "x \<noteq> []"
    and "\<forall>i < length x div bs. classify (batch_slice x i bs) = batch_slice t i bs"
    and "\<forall>c \<in> set t. c < labels"
    and "\<forall>c < labels. c \<in> set t"
  shows "accuracy_f1score labels classify x t bs
           = Inr (Finite 1, Finite 1, diag_matrix labels (\<lambda>c. real (count_list t c)))
         \<and> (\<forall>i < labels. \<forall>j < labels. i \<noteq> j \<longrightarrow>
               diag_matrix labels (\<lambda>c. real (count_list t c)) ! i ! j = 0)"
proof -
  let ?cnt = "\<lambda>c. real (count_list t c)"
  let ?cm = "diag_matrix labels ?cnt"
  let ?nb = "length x div bs"
  from assms(2) have nb: "?nb * bs = length x" by simp
  from assms(3,4) obtain c where "c \<in> set t" by (cases t) auto
  with assms(6) have lab: "0 < labels" by auto
  have n: "0 < length x" using assms(4) by simp
  have "count_batches classify x t bs [0..<?nb] (diag_matrix labels (\<lambda>_. 0))
        = Inr (diag_matrix labels
                 (\<lambda>c. 0 + real (count_list (concat (map (\<lambda>i. batch_slice t i bs) [0..<?nb])) c)))"
    using assms(5,6) by (intro count_batches_diag) simp_all
  then have cb: "count_batches classify x t bs [0..<?nb] (zeros_matrix labels) = Inr ?cm"
    using nb assms(3) by (simp add: concat_batches zeros_matrix_diag)
  have "map (\<lambda>i. ?cm ! i ! i) [0..<labels] = map ?cnt [0..<labels]"
    by simp
  then have "sum_list (map (\<lambda>i. ?cm ! i ! i) [0..<labels]) = real (length t)"
    using assms(6) by (simp only: diag_sum_counts)
  then have acc: "accuracy_of labels ?cm (length x) = Inr (Finite 1)"
    using n lab assms(3) by (simp add: accuracy_of_def)
  have nz: "\<forall>i < labels. ?cnt i \<noteq> 0"
    using assms(7) by (simp add: count_list_0_iff)
  have "precision labels ?cm = replicate labels (Finite 1)"
    unfolding precision_def sum_axis0_diag using nz by (rule per_class_ones)
  moreover have "recall labels ?cm = replicate labels (Finite 1)"
    unfolding recall_def sum_axis1_diag using nz by (rule per_class_ones)
  ultimately have f1: "f1score_of labels ?cm = Finite 1"
    using lab by (simp add: f1score_of_def np_mean_ones f1_combine_def)
  have "accuracy_f1score labels classify x t bs = Inr (Finite 1, Finite 1, ?cm)"
    using assms(1) cb acc f1 by (simp add: accuracy_f1score_def)
  then show ?thesis by simp
qed

theorem perfect_predictions_metrics_witness:
  "accuracy_f1score 2 id [0, 1, 1, 0] [0, 1, 1, 0] 2
     = Inr (Finite 1, Finite 1, [[2, 0], [0, 2]])"
proof -
  have "\<forall>i < length [0, 1, 1, 0 :: nat] div 2.
          id (batch_slice [0, 1, 1, 0 :: nat] i 2) = batch_slice [0, 1, 1, 0] i 2"
    by simp
  moreover have "\<forall>c < 2. c \<in> set [0, 1, 1, 0 :: nat]"
    by (auto simp: less_Suc_eq numeral_2_eq_2)
  ultimately have "accuracy_f1score 2 id [0, 1, 1, 0] [0, 1, 1, 0] 2
     = Inr (Finite 1, Finite 1, diag_matrix 2 (\<lambda>c. real (count_list [0, 1, 1, 0] c)))"
    using perfect_predictions_metrics [of 2 "[0, 1, 1, 0]" "[0, 1, 1, 0]" id 2]
    by simp
  then show ?thesis
    by (simp add: diag_matrix_def upt_conv_Cons)
qed

lemma decode_div: "a < b \<Longrightarrow> (q * b + a) div b = (q :: nat)"
  by simp

lemma decode_mod: "a < b \<Longrightarrow> (q * b + a) mod b = (a :: nat)"
  by simp

lemma ncols_tab: "0 < R \<Longrightarrow> ncols (map (\<lambda>r. map (f r) [0..<Q]) [0..<R]) = Q"
  by (simp add: ncols_def upt_conv_Cons)

lemma mat_flat_tab:
  assumes "m < R * Q"
  shows "mat_flat (map (\<lambda>r. map (f r) [0..<Q]) [0..<R]) m = f (m div Q) (m mod Q)"
proof -
  from assms have R: "0 < R" by (cases R) simp_all
  from assms have Q: "0 < Q" by (cases Q) simp_all
  from assms have d: "m div Q < R" by (simp add: less_mult_imp_div_less)
  from Q have mq: "m mod Q < Q" by simp
  show ?thesis using R d mq by (simp add: mat_flat_def ncols_tab)
qed

lemma argmax_from_bound:
  "bi < i \<Longrightarrow> argmax_from best bi i vs < i + length vs"
proof (induction vs arbitrary: best bi i)
  case Nil
  then show ?case by simp
next
  case (Cons v vs)
  have "argmax_from v i (Suc i) vs < Suc i + length vs"
    by (rule Cons.IH) simp
  moreover have "argmax_from best bi (Suc i) vs < Suc i + length vs"
    by (rule Cons.IH) (use Cons.prems in simp)
  ultimately show ?case by simp
qed

lemma argmax_row_bound: "r \<noteq> [] \<Longrightarrow> argmax_row r < length r"
  using argmax_from_bound [of 0 1] by (cases r) (auto simp: argmax_row_def)

lemma argmax_from_max:
  assumes "bi < length pre" and "pre ! bi = best" and "\<forall>v \<in> set pre. v \<le> best"
  shows "\<forall>v \<in> set (pre @ vs). v \<le> (pre @ vs) ! argmax_from best bi (length pre) vs"
  using assms
proof (induction vs arbitrary: pre best bi)
  case Nil
  then show ?case by simp
next
  case (Cons v vs)
  show ?case
  proof (cases "best < v")
    case True
    have "\<forall>u \<in> set ((pre @ [v]) @ vs).
            u \<le> ((pre @ [v]) @ vs) ! argmax_from v (length pre) (length (pre @ [v])) vs"
    proof (rule Cons.IH)
      show "length pre < length (pre @ [v])" by simp
      show "(pre @ [v]) ! length pre = v" by simp
      show "\<forall>u \<in> set (pre @ [v]). u \<le> v" using Cons.prems(3) True by force
    qed
    with True show ?thesis by simp
  next
    case False
    have "\<forall>u \<in> set ((pre @ [v]) @ vs).
            u \<le> ((pre @ [v]) @ vs) ! argmax_from best bi (length (pre @ [v])) vs"
    proof (rule Cons.IH)
      show "bi < length (pre @ [v])" using Cons.prems(1) by simp
      show "(pre @ [v]) ! bi = best" using Cons.prems(1,2) by (simp add: nth_append)
      show "\<forall>u \<in> set (pre @ [v]). u \<le> best" using Cons.prems(3) False by force
    qed
    with False show ?thesis by simp
  qed
qed

lemma argmax_row_max: "p < length r \<Longrightarrow> r ! p \<le> r ! argmax_row r"
proof (cases r)
  case Nil
  then show "p < length r \<Longrightarrow> r ! p \<le> r ! argmax_row r" by simp
next
  case (Cons v vs)
  assume p: "p < length r"
  have "\<forall>u \<in> set ([v] @ vs). u \<le> ([v] @ vs) ! argmax_from v 0 (length [v]) vs"
    by (rule argmax_from_max) simp_all
  then have "\<forall>u \<in> set r. u \<le> r ! argmax_row r"
    using Cons by (simp add: argmax_row_def)
  with p show "r ! p \<le> r ! argmax_row r" by simp
qed

lemma sum_list_delta:
  "sum_list (map (\<lambda>i. if i = a then f i else (0::real)) [0..<n]) = (if a < n then f a else 0)"
  by (induction n) auto

lemma sum_list_cong_upt:
  "(\<And>i. i < n \<Longrightarrow> f i = g i) \<Longrightarrow> sum_list (map f [0..<n]) = sum_list (map g [0..<n])"
  by (rule arg_cong [where f = sum_list]) simp

lemma sum_list_zero_upt: "sum_list (map (\<lambda>i. 0::real) [0..<n]) = 0"
  by (induction n) auto

lemma window_position:
  assumes "j < pw"
  shows "i * pw + j = (a :: nat) \<longleftrightarrow> i = a div pw \<and> j = a mod pw"
proof
  assume e: "i * pw + j = a"
  have "(i * pw + j) div pw = i" using assms by (rule decode_div)
  moreover have "(i * pw + j) mod pw = j" using assms by (rule decode_mod)
  ultimately show "i = a div pw \<and> j = a mod pw" unfolding e by simp
next
  assume "i = a div pw \<and> j = a mod pw"
  then show "i * pw + j = a" by simp
qed

lemma sum_window:
  assumes a: "a < ph * pw"
  shows "sum_list (map (\<lambda>i. sum_list (map (\<lambda>j.
            if P i \<and> Q j then (if i * pw + j = a then v else 0) else (0::real))
          [0..<pw])) [0..<ph])
         = (if P (a div pw) \<and> Q (a mod pw) then v else 0)"
proof -
  from a have pw: "0 < pw" by (cases pw; simp)
  from a have ai: "a div pw < ph" by (simp add: less_mult_imp_div_less mult.commute)
  from pw have aj: "a mod pw < pw" by simp
  have inner: "sum_list (map (\<lambda>j.
            if P i \<and> Q j then (if i * pw + j = a then v else 0) else (0::real)) [0..<pw])
        = (if i = a div pw then (if P i \<and> Q (a mod pw) then v else 0) else 0)" for i
  proof -
    have "sum_list (map (\<lambda>j.
            if P i \<and> Q j then (if i * pw + j = a then v else 0) else (0::real)) [0..<pw])
        = sum_list (map (\<lambda>j. if j = a mod pw
             then (if i = a div pw \<and> P i \<and> Q j then v else 0) else 0) [0..<pw])"
    proof (rule sum_list_cong_upt)
      fix j assume "j < pw"
      then have wp: "(i * pw + j = a) = (i = a div pw \<and> j = a mod pw)"
        by (rule window_position)
      show "(if P i \<and> Q j then (if i * pw + j = a then v else 0) else (0::real))
          = (if j = a mod pw then (if i = a div pw \<and> P i \<and> Q j then v else 0) else 0)"
      proof (cases "i * pw + j = a")
        case True
        with wp have "i = a div pw" "j = a mod pw" by simp_all
        with True show ?thesis by simp
      next
        case False
        with wp have "\<not> (i = a div pw \<and> j = a mod pw)" by simp
        with False show ?thesis by auto
      qed
    qed
    also have "\<dots> = (if i = a div pw \<and> P i \<and> Q (a mod pw) then v else 0)"
      using aj by (simp only: sum_list_delta if_True)
    also have "\<dots> = (if i = a div pw then (if P i \<and> Q (a mod pw) then v else 0) else 0)"
      by simp
    finally show ?thesis .
  qed
  have "sum_list (map (\<lambda>i. sum_list (map (\<lambda>j.
            if P i \<and> Q j then (if i * pw + j = a then v else 0) else (0::real))
          [0..<pw])) [0..<ph])
        = sum_list (map (\<lambda>i. if i = a div pw
             then (if P i \<and> Q (a mod pw) then v else 0) else 0) [0..<ph])"
    by (simp only: inner)
  also have "\<dots> = (if P (a div pw) \<and> Q (a mod pw) then v else 0)"
    using ai by (simp only: sum_list_delta if_True)
  finally show ?thesis .
qed

lemma idx_bound: "a < A \<Longrightarrow> b < B \<Longrightarrow> a * B + b < A * (B :: nat)"
proof -
  assume a: "a < A" and b: "b < B"
  have "a * B + b < a * B + B" using b by simp
  also have "\<dots> = Suc a * B" by simp
  also have "\<dots> \<le> A * B" using a by (intro mult_le_mono1) simp
  finally show ?thesis .
qed

lemma window_index_bound:
  assumes "n < N" and "c < C" and "oh < OH" and "ow < OW"
  shows "window_index OH OW C n c oh ow < N * OH * OW * C"
  unfolding window_index_def using assms by (intro idx_bound)

lemma window_index_decode:
  assumes "c < C" and "oh < OH" and "ow < OW"
  shows "window_index OH OW C n c oh ow mod C = c"
    and "window_index OH OW C n c oh ow div C mod OW = ow"
    and "window_index OH OW C n c oh ow div C div OW mod OH = oh"
    and "window_index OH OW C n c oh ow div C div OW div OH = n"
  unfolding window_index_def using assms by (simp_all add: decode_div decode_mod)

lemma im2col_entries:
  assumes col: "im2col x ph pw s pad = Inr col" and d: "dims4 x = (N, C, H, W)"
    and OH: "im2col_out H ph s pad = Inr OH" and OW: "im2col_out W pw s pad = Inr OW"
  shows "length col * ncols col = N * OH * OW * C * (ph * pw)"
    and "n < N \<Longrightarrow> c < C \<Longrightarrow> oh < OH \<Longrightarrow> ow < OW \<Longrightarrow> p < ph * pw \<Longrightarrow>
           mat_flat col (window_index OH OW C n c oh ow * (ph * pw) + p)
           = padded x pad n c (oh * s + p div pw) (ow * s + p mod pw)"
proof -
  let ?f = "\<lambda>r q. padded x pad (r div OW div OH) (q div pw div ph)
                      ((r div OW) mod OH * s + (q div pw) mod ph)
                      (r mod OW * s + q mod pw)"
  let ?R = "N * OH * OW" and ?Q = "C * ph * pw"
  from col d OH OW have c: "col = map (\<lambda>r. map (?f r) [0..<?Q]) [0..<?R]"
    by (simp add: im2col_def)
  show "length col * ncols col = N * OH * OW * C * (ph * pw)"
  proof (cases "?R = 0")
    case True
    then show ?thesis by (simp add: c)
  next
    case False
    then have "0 < ?R" by simp
    then have "ncols col = ?Q" unfolding c by (rule ncols_tab)
    then show ?thesis by (simp add: c mult.assoc)
  qed
  assume n: "n < N" and cc: "c < C" and oh: "oh < OH" and ow: "ow < OW" and p: "p < ph * pw"
  let ?r = "(n * OH + oh) * OW + ow"
  let ?q = "c * (ph * pw) + p"
  let ?m = "window_index OH OW C n c oh ow * (ph * pw) + p"
  have m: "?m = ?r * ?Q + ?q"
    by (simp add: window_index_def algebra_simps)
  have q: "?q < ?Q" using cc p by (simp add: idx_bound mult.assoc)
  have r: "?r < ?R" using n oh ow by (intro idx_bound)
  have "?m < ?R * ?Q" unfolding m using r q by (rule idx_bound)
  then have "mat_flat col ?m = ?f (?m div ?Q) (?m mod ?Q)"
    unfolding c by (rule mat_flat_tab)
  moreover have "?m div ?Q = ?r" unfolding m using q by (rule decode_div)
  moreover have "?m mod ?Q = ?q" unfolding m using q by (rule decode_mod)
  ultimately have 1: "mat_flat col ?m = ?f ?r ?q" by simp
  from p have pw: "0 < pw" by (cases pw) simp_all
  have pd: "p div pw < ph" using p by (simp add: less_mult_imp_div_less mult.commute)
  have pm: "p mod pw < pw" using pw by simp
  have q2: "?q = (c * ph + p div pw) * pw + p mod pw"
    by (simp add: algebra_simps)
  have a1: "?q div pw = c * ph + p div pw" unfolding q2 using pm by (rule decode_div)
  have a2: "?q mod pw = p mod pw" unfolding q2 using pm by (rule decode_mod)
  have a3: "?q div pw div ph = c" unfolding a1 using pd by (rule decode_div)
  have a4: "?q div pw mod ph = p div pw" unfolding a1 using pd by (rule decode_mod)
  have b1: "?r mod OW = ow" using ow by (rule decode_mod)
  have b2: "?r div OW = n * OH + oh" using ow by (rule decode_div)
  have b3: "?r div OW mod OH = oh" unfolding b2 using oh by (rule decode_mod)
  have b4: "?r div OW div OH = n" unfolding b2 using oh by (rule decode_div)
  show "mat_flat col ?m = padded x pad n c (oh * s + p div pw) (ow * s + p mod pw)"
    unfolding 1 a2 a3 a4 b1 b3 b4 ..
qed

lemma im2col_out_pos: "im2col_out H k s pad = Inr OH \<Longrightarrow> 0 < OH \<and> 0 < s \<and> k \<le> H + 2 * pad
    \<and> OH = (H + 2 * pad - k) div s + 1"
proof -
  assume a: "im2col_out H k s pad = Inr OH"
  then have b: "s \<noteq> 0" "\<not> H + 2 * pad < k"
    by (auto simp: im2col_out_def split: if_splits)
  from a [unfolded im2col_out_def] b show ?thesis by auto
qed

lemma pool_out_size_fit:
  assumes o: "pool_out_size H k s = Inr oh" and fit: "k \<le> H"
  shows "oh = 1 + int ((H - k) div s)"
proof -
  from o have s: "s \<noteq> 0" by (auto simp: pool_out_size_def split: if_splits)
  with o have oh: "oh = py_int (1 + (real H - real k) / real s)"
    by (simp add: pool_out_size_def)
  from fit have e: "real H - real k = real (H - k)"
    by (simp add: of_nat_diff)
  have nn: "0 \<le> 1 + real (H - k) / real s" by simp
  have "oh = py_int (1 + real (H - k) / real s)"
    unfolding oh e ..
  also have "\<dots> = \<lfloor>1 + real (H - k) / real s\<rfloor>"
    using nn unfolding py_int_def by (rule if_P)
  also have "\<dots> = 1 + \<lfloor>real (H - k) / real s\<rfloor>" by linarith
  also have "\<lfloor>real (H - k) / real s\<rfloor> = int ((H - k) div s)"
    by (simp add: floor_divide_of_nat_eq)
  finally show ?thesis .
qed

lemma pool_out_size_le:
  assumes o: "pool_out_size H k s = Inr oh" and O: "im2col_out H k s pad = Inr OH"
  shows "oh \<le> int OH"
proof -
  from im2col_out_pos [OF O] have s: "0 < s" and OH: "OH = (H + 2 * pad - k) div s + 1"
    by simp_all
  from o s have oh: "oh = py_int (1 + (real H - real k) / real s)"
    by (simp add: pool_out_size_def)
  show ?thesis
  proof (cases "k \<le> H")
    case True
    then have e: "real H - real k = real (H - k)"
      by (simp add: of_nat_diff)
    have nn: "0 \<le> 1 + real (H - k) / real s" by simp
    have "oh = py_int (1 + real (H - k) / real s)"
      unfolding oh e ..
    also have "\<dots> = \<lfloor>1 + real (H - k) / real s\<rfloor>"
      using nn unfolding py_int_def by (rule if_P)
    also have "\<dots> = 1 + \<lfloor>real (H - k) / real s\<rfloor>" by linarith
    also have "\<lfloor>real (H - k) / real s\<rfloor> = int ((H - k) div s)"
      by (simp add: floor_divide_of_nat_eq)
    finally have "oh = 1 + int ((H - k) div s)" .
    moreover have "(H - k) div s \<le> (H + 2 * pad - k) div s"
      by (intro div_le_mono) simp
    ultimately show ?thesis by (simp add: OH)
  next
    case False
    then have "real H - real k < 0" by simp
    then have "(real H - real k) / real s < 0" using s by (simp add: divide_neg_pos)
    then have v: "1 + (real H - real k) / real s < 1" by simp
    have "py_int (1 + (real H - real k) / real s) \<le> 0"
    proof (cases "0 \<le> 1 + (real H - real k) / real s")
      case True
      then have "\<lfloor>1 + (real H - real k) / real s\<rfloor> = 0" using v by linarith
      with True show ?thesis by (simp add: py_int_def)
    next
      case False
      then have "\<lceil>1 + (real H - real k) / real s\<rceil> \<le> 0" by linarith
      with False show ?thesis by (simp add: py_int_def)
    qed
    then show ?thesis by (simp add: oh)
  qed
qed

lemma product_eq:
  fixes a b :: int
  assumes e: "int N * a * b * int C = int (N * OH * OW * C)"
    and N: "0 < N" and C: "0 < C" and a0: "0 \<le> a" and b0: "0 \<le> b"
    and a: "a \<le> int OH" and b: "b \<le> int OW" and OH: "0 < OH" and OW: "0 < OW"
  shows "a = int OH \<and> b = int OW"
proof -
  from e have "int N * int C * (a * b) = int N * int C * (int OH * int OW)"
    by (simp add: algebra_simps)
  with N C have ab: "a * b = int OH * int OW" by simp
  have "a = int OH"
  proof (rule ccontr)
    assume "a \<noteq> int OH"
    with a have "a < int OH" by simp
    then have "a + 1 \<le> int OH" by simp
    have "a * b \<le> a * int OW" using b a0 by (rule mult_left_mono)
    also have "\<dots> < (a + 1) * int OW" using OW by (simp add: algebra_simps)
    also have "\<dots> \<le> int OH * int OW" using \<open>a + 1 \<le> int OH\<close> by (intro mult_right_mono) simp_all
    finally show False using ab by simp
  qed
  moreover have "b = int OW"
  proof (rule ccontr)
    assume "b \<noteq> int OW"
    with b have "b < int OW" by simp
    then have "b + 1 \<le> int OW" by simp
    have "a * b \<le> int OH * b" using a b0 by (rule mult_right_mono)
    also have "\<dots> < int OH * (b + 1)" using OH by (simp add: algebra_simps)
    also have "\<dots> \<le> int OH * int OW" using \<open>b + 1 \<le> int OW\<close> by (intro mult_left_mono) simp_all
    finally show False using ab by simp
  qed
  ultimately show ?thesis ..
qed

lemma Pooling_forward_facts:
  assumes fwd: "Pooling_forward self x = Inr (self', out)"
    and d: "dims4 x = (N, C, H, W)" and N: "0 < N" and C: "0 < C"
    and fit: "pool_h self \<le> H" "pool_w self \<le> W"
  shows "\<exists>OH OW am.
           im2col_out H (pool_h self) (pool_stride self) (pool_pad self) = Inr OH
         \<and> im2col_out W (pool_w self) (pool_stride self) (pool_pad self) = Inr OW
         \<and> 0 < pool_h self * pool_w self
         \<and> dims4 out = (N, C, OH, OW)
         \<and> self' = self\<lparr>pool_x := Some x, pool_arg_max := Some am\<rparr>
         \<and> length am = N * OH * OW * C
         \<and> (\<forall>n < N. \<forall>c < C. \<forall>oh < OH. \<forall>ow < OW.
               am ! window_index OH OW C n c oh ow = argmax_row (window_values self x n c oh ow)
             \<and> elem4 out n c oh ow
                 = window_values self x n c oh ow ! (am ! window_index OH OW C n c oh ow))"
proof -
  let ?ph = "pool_h self" and ?pw = "pool_w self" and ?s = "pool_stride self"
  let ?pad = "pool_pad self"
  let ?ps = "?ph * ?pw"
  from fwd d obtain out_h out_w col windows where
    oh: "pool_out_size H ?ph ?s = Inr out_h" and ow: "pool_out_size W ?pw ?s = Inr out_w"
    and col: "im2col x ?ph ?pw ?s ?pad = Inr col"
    and win: "reshape_windows col ?ps = Inr windows"
    by (auto simp: Pooling_forward_def split: sum.splits)
  from col d obtain OH OW where
    OH: "im2col_out H ?ph ?s ?pad = Inr OH" and OW: "im2col_out W ?pw ?s ?pad = Inr OW"
    by (auto simp: im2col_def split: sum.splits)
  note e = im2col_entries [OF col d OH OW]
  from win have ps: "0 < ?ps" by (auto simp: reshape_windows_def split: if_splits)
  let ?K = "N * OH * OW * C"
  from win ps e(1) have windows:
    "windows = map (\<lambda>k. map (\<lambda>p. mat_flat col (k * ?ps + p)) [0..<?ps]) [0..<?K]"
    by (auto simp: reshape_windows_def split: if_splits)
  let ?am = "map argmax_row windows"
  let ?o = "map (\<lambda>r. r ! argmax_row r) windows"
  from pool_out_size_fit [OF oh fit(1)] pool_out_size_fit [OF ow fit(2)]
  have nneg: "0 \<le> out_h" "0 \<le> out_w" by simp_all
  from fwd d oh ow col win obtain h' w' where
    ro: "reshape_out (length ?o) N out_h out_w C = Inr (h', w')"
    and res0: "self' = self\<lparr>pool_x := Some x, pool_arg_max := Some ?am\<rparr>"
      "out = \<lparr>dims4 = (N, C, h', w'),
              elem4 = (\<lambda>n c h w. ?o ! (((n * h' + h) * w' + w) * C + c))\<rparr>"
    by (auto simp: Pooling_forward_def Let_def split: sum.splits prod.splits)
  from ro nneg have hw: "h' = nat out_h" "w' = nat out_w"
    and cnt: "length ?o = N * nat out_h * nat out_w * C"
    by (auto simp: reshape_out_def split: if_splits)
  have chk: "0 \<le> out_h" "0 \<le> out_w"
      "int (length ?o) = int N * out_h * out_w * int C"
    using nneg cnt by simp_all
  note res = res0(1) res0(2) [unfolded hw]
  have lk: "length windows = ?K" by (simp add: windows)
  from im2col_out_pos [OF OH] im2col_out_pos [OF OW] have pos: "0 < OH" "0 < OW"
    by simp_all
  have "out_h = int OH \<and> out_w = int OW"
  proof (rule product_eq)
    show "int N * out_h * out_w * int C = int (N * OH * OW * C)"
      using chk(3) lk by auto
    show "out_h \<le> int OH" using oh OH by (rule pool_out_size_le)
    show "out_w \<le> int OW" using ow OW by (rule pool_out_size_le)
  qed (use N C chk pos in simp_all)
  then have oo: "nat out_h = OH" "nat out_w = OW" by simp_all
  have wv: "windows ! window_index OH OW C n c oh ow = window_values self x n c oh ow"
    if "n < N" "c < C" "oh < OH" "ow < OW" for n c oh ow
  proof -
    from that have k: "window_index OH OW C n c oh ow < ?K" by (rule window_index_bound)
    have "windows ! window_index OH OW C n c oh ow
          = map (\<lambda>p. mat_flat col (window_index OH OW C n c oh ow * ?ps + p)) [0..<?ps]"
      using k by (simp add: windows)
    also have "\<dots> = window_values self x n c oh ow"
      unfolding window_values_def using that by (simp add: e(2))
    finally show ?thesis .
  qed
  have main: "?am ! window_index OH OW C n c oh ow = argmax_row (window_values self x n c oh ow)
             \<and> elem4 out n c oh ow
                 = window_values self x n c oh ow ! (?am ! window_index OH OW C n c oh ow)"
    if t: "n < N" "c < C" "oh < OH" "ow < OW" for n c oh ow
  proof -
    from t have k: "window_index OH OW C n c oh ow < length windows"
      unfolding lk by (rule window_index_bound)
    have "elem4 out n c oh ow = ?o ! window_index OH OW C n c oh ow"
      by (simp add: res(2) oo window_index_def)
    with k wv [OF t] show ?thesis by simp
  qed
  have "dims4 out = (N, C, OH, OW)" by (simp add: res(2) oo)
  moreover have "length ?am = ?K" by (simp add: lk)
  ultimately show ?thesis using OH OW ps res(1) main by blast
qed

lemma ncols_nth0: "m \<noteq> [] \<Longrightarrow> ncols m = length (m ! 0)"
  by (cases m) (simp_all add: ncols_def)

lemma sum_list_upt_sum: "sum_list (map f [0..<n]) = (\<Sum>i < n. f i :: real)"
  by (simp add: interv_sum_list_conv_sum_set_nat atLeast0LessThan)

lemma permute_flatten_nth:
  assumes "dims4 dout = (N, C, OH, OW)" and "n < N" and "c < C" and "oh < OH" and "ow < OW"
  shows "permute_flatten dout ! window_index OH OW C n c oh ow = elem4 dout n c oh ow"
proof -
  from assms(2-5) have k: "window_index OH OW C n c oh ow < N * OH * OW * C"
    by (rule window_index_bound)
  note dec = window_index_decode [OF assms(3-5), of n]
  show ?thesis using k by (simp add: permute_flatten_def assms(1) dec)
qed

lemma length_permute_flatten:
  "dims4 dout = (N, C, OH, OW) \<Longrightarrow> length (permute_flatten dout) = N * OH * OW * C"
  by (simp add: permute_flatten_def)

lemma Pooling_backward_facts:
  assumes x: "pool_x self = Some x" and am: "pool_arg_max self = Some am"
    and d: "dims4 x = (N, C, H, W)" and dd: "dims4 dout = (N, C, OH, OW)"
    and OH: "im2col_out H (pool_h self) (pool_stride self) (pool_pad self) = Inr OH"
    and OW: "im2col_out W (pool_w self) (pool_stride self) (pool_pad self) = Inr OW"
    and len: "length am = N * OH * OW * C"
    and bound: "\<forall>k < length am. am ! k < pool_h self * pool_w self"
    and N: "0 < N" and C: "0 < C"
  shows "\<exists>dx. Pooling_backward to_float self dout = Inr dx
         \<and> dims4 dx = (N, C, H, W)
         \<and> (\<forall>n < N. \<forall>c < C. \<forall>y x'.
               elem4 dx n c y x' =
                 (\<Sum>oh < OH. \<Sum>ow < OW.
                    if oh * pool_stride self + am ! window_index OH OW C n c oh ow div pool_w self
                         = y + pool_pad self
                       \<and> ow * pool_stride self
                           + am ! window_index OH OW C n c oh ow mod pool_w self
                         = x' + pool_pad self
                    then to_float (elem4 dout n c oh ow) else 0))"
proof -
  let ?ph = "pool_h self" and ?pw = "pool_w self" and ?s = "pool_stride self"
  let ?pad = "pool_pad self"
  let ?ps = "?ph * ?pw"
  let ?K = "N * OH * OW * C"
  let ?rows = "N * OH * OW"
  let ?Q = "C * ?ps"
  let ?g = "map to_float (permute_flatten dout)"
  let ?dmax = "map2 (\<lambda>a v. (replicate ?ps 0)[a := v]) am ?g"
  from im2col_out_pos [OF OH] im2col_out_pos [OF OW] have pos: "0 < OH" "0 < OW"
    by simp_all
  with N C have K: "0 < ?K" and rows: "0 < ?rows" by simp_all
  have lg: "length ?g = ?K" using dd by (simp add: length_permute_flatten)
  have all: "list_all (\<lambda>a. a < ?ps) am"
    using bound by (simp add: list_all_length)
  have sc: "scatter_argmax ?ps am ?g = Inr ?dmax"
    using len lg all by (simp add: scatter_argmax_def)
  have ld: "length ?dmax = ?K" using len lg by simp
  have row: "?dmax ! k = (replicate ?ps 0)[am ! k := ?g ! k]" if "k < ?K" for k
    using that len lg by simp
  have "?dmax \<noteq> []" using ld K by auto
  then have "ncols ?dmax = length (?dmax ! 0)" by (rule ncols_nth0)
  also have "\<dots> = ?ps" using row [OF K] by simp
  finally have nc: "ncols ?dmax = ?ps" .
  have tot: "length ?dmax * ncols ?dmax = ?rows * ?Q"
    unfolding ld nc by (simp add: mult.assoc)
  let ?dcol = "map (\<lambda>r. map (\<lambda>q. mat_flat ?dmax (r * ?Q + q)) [0..<?Q]) [0..<?rows]"
  have dq: "(length ?dmax * ncols ?dmax) div ?rows = ?Q"
    unfolding tot using rows by simp
  have dm: "(length ?dmax * ncols ?dmax) mod ?rows = 0"
    unfolding tot by simp
  have rd: "reshape_dcol ?dmax ?rows = Inr ?dcol"
    unfolding reshape_dcol_def dq using rows dm by simp
  have ncd: "ncols ?dcol = ?Q" using rows by (rule ncols_tab)
  have chk: "length ?dcol * ncols ?dcol = N * OH * OW * C * ?ph * ?pw"
    unfolding ncd by (simp add: mult.assoc)
  let ?dx = "\<lparr>dims4 = (N, C, H, W),
              elem4 = (\<lambda>n c y x'.
                 sum_list (map (\<lambda>oh'. sum_list (map (\<lambda>ow'.
                   sum_list (map (\<lambda>i. sum_list (map (\<lambda>j.
                     if oh' * ?s + i = y + ?pad \<and> ow' * ?s + j = x' + ?pad
                     then mat_flat ?dcol
                            (((((n * OH + oh') * OW + ow') * C + c) * ?ph + i) * ?pw + j)
                     else 0)
                   [0..<?pw])) [0..<?ph])) [0..<OW])) [0..<OH]))\<rparr>"
  have c2: "col2im ?dcol (N, C, H, W) ?ph ?pw ?s ?pad = Inr ?dx"
    using OH OW chk by (simp add: col2im_def)
  have run: "Pooling_backward to_float self dout = Inr ?dx"
    using x am sc dd rd c2 d by (simp add: Pooling_backward_def)
  have entry: "mat_flat ?dcol (((((n * OH + oh) * OW + ow) * C + c) * ?ph + i) * ?pw + j)
        = (if i * ?pw + j = am ! window_index OH OW C n c oh ow
           then to_float (elem4 dout n c oh ow) else 0)"
    if t: "n < N" "c < C" "oh < OH" "ow < OW" and i: "i < ?ph" and j: "j < ?pw"
    for n c oh ow i j
  proof -
    let ?k = "window_index OH OW C n c oh ow"
    let ?m = "((((n * OH + oh) * OW + ow) * C + c) * ?ph + i) * ?pw + j"
    from t have k: "?k < ?K" by (rule window_index_bound)
    have p: "i * ?pw + j < ?ps" using i j by (rule idx_bound)
    have m: "?m = ?k * ?ps + (i * ?pw + j)"
      by (simp add: window_index_def algebra_simps)
    have "?m < ?K * ?ps" unfolding m using k p by (rule idx_bound)
    then have mlt: "?m < ?rows * ?Q" by (simp add: mult.assoc)
    have ps: "0 < ?ps" using i j by auto
    with C have Q: "0 < ?Q" by simp
    have "mat_flat ?dcol ?m = mat_flat ?dmax (?m div ?Q * ?Q + ?m mod ?Q)"
      using mlt by (rule mat_flat_tab)
    also have "?m div ?Q * ?Q + ?m mod ?Q = ?m" by (rule div_mult_mod_eq)
    also have "mat_flat ?dmax ?m = ?dmax ! (?m div ?ps) ! (?m mod ?ps)"
      unfolding mat_flat_def nc ..
    also have "?m div ?ps = ?k" unfolding m using p by (rule decode_div)
    also have "?m mod ?ps = i * ?pw + j" unfolding m using p by (rule decode_mod)
    also have "?dmax ! ?k = (replicate ?ps 0)[am ! ?k := ?g ! ?k]" using k by (rule row)
    also have "?g ! ?k = to_float (elem4 dout n c oh ow)"
      using k dd t by (simp add: length_permute_flatten permute_flatten_nth)
    finally have "mat_flat ?dcol ?m
        = (replicate ?ps 0)[am ! ?k := to_float (elem4 dout n c oh ow)] ! (i * ?pw + j)" .
    moreover have "am ! ?k < ?ps" using bound k len by simp
    ultimately show ?thesis using p by (simp add: nth_list_update)
  qed
  have elem: "elem4 ?dx n c y x' =
                 (\<Sum>oh < OH. \<Sum>ow < OW.
                    if oh * ?s + am ! window_index OH OW C n c oh ow div ?pw = y + ?pad
                       \<and> ow * ?s + am ! window_index OH OW C n c oh ow mod ?pw = x' + ?pad
                    then to_float (elem4 dout n c oh ow) else 0)"
    if nc: "n < N" "c < C" for n c y x'
  proof -
    have win: "sum_list (map (\<lambda>i. sum_list (map (\<lambda>j.
                     if oh * ?s + i = y + ?pad \<and> ow * ?s + j = x' + ?pad
                     then mat_flat ?dcol
                            (((((n * OH + oh) * OW + ow) * C + c) * ?ph + i) * ?pw + j)
                     else 0)
                   [0..<?pw])) [0..<?ph])
          = (if oh * ?s + am ! window_index OH OW C n c oh ow div ?pw = y + ?pad
                \<and> ow * ?s + am ! window_index OH OW C n c oh ow mod ?pw = x' + ?pad
             then to_float (elem4 dout n c oh ow) else 0)"
      if o: "oh < OH" "ow < OW" for oh ow
    proof -
      let ?a = "am ! window_index OH OW C n c oh ow"
      let ?v = "to_float (elem4 dout n c oh ow)"
      from nc o have "window_index OH OW C n c oh ow < ?K" by (rule window_index_bound)
      with bound len have a: "?a < ?ps" by simp
      have "sum_list (map (\<lambda>i. sum_list (map (\<lambda>j.
                     if oh * ?s + i = y + ?pad \<and> ow * ?s + j = x' + ?pad
                     then mat_flat ?dcol
                            (((((n * OH + oh) * OW + ow) * C + c) * ?ph + i) * ?pw + j)
                     else 0)
                   [0..<?pw])) [0..<?ph])
          = sum_list (map (\<lambda>i. sum_list (map (\<lambda>j.
                     if oh * ?s + i = y + ?pad \<and> ow * ?s + j = x' + ?pad
                     then (if i * ?pw + j = ?a then ?v else 0) else 0)
                   [0..<?pw])) [0..<?ph])"
      proof (rule sum_list_cong_upt)
        fix i assume i: "i < ?ph"
        show "sum_list (map (\<lambda>j.
                     if oh * ?s + i = y + ?pad \<and> ow * ?s + j = x' + ?pad
                     then mat_flat ?dcol
                            (((((n * OH + oh) * OW + ow) * C + c) * ?ph + i) * ?pw + j)
                     else 0) [0..<?pw])
            = sum_list (map (\<lambda>j.
                     if oh * ?s + i = y + ?pad \<and> ow * ?s + j = x' + ?pad
                     then (if i * ?pw + j = ?a then ?v else 0) else 0) [0..<?pw])"
        proof (rule sum_list_cong_upt)
          fix j assume j: "j < ?pw"
          show "(if oh * ?s + i = y + ?pad \<and> ow * ?s + j = x' + ?pad
                 then mat_flat ?dcol
                        (((((n * OH + oh) * OW + ow) * C + c) * ?ph + i) * ?pw + j)
                 else 0)
              = (if oh * ?s + i = y + ?pad \<and> ow * ?s + j = x' + ?pad
                 then (if i * ?pw + j = ?a then ?v else 0) else 0)"
            unfolding entry [OF nc o i j] ..
        qed
      qed
      also have "\<dots> = (if oh * ?s + ?a div ?pw = y + ?pad \<and> ow * ?s + ?a mod ?pw = x' + ?pad
                         then ?v else 0)"
        using a by (rule sum_window)
      finally show ?thesis .
    qed
    have "elem4 ?dx n c y x'
        = sum_list (map (\<lambda>oh. sum_list (map (\<lambda>ow.
             if oh * ?s + am ! window_index OH OW C n c oh ow div ?pw = y + ?pad
                \<and> ow * ?s + am ! window_index OH OW C n c oh ow mod ?pw = x' + ?pad
             then to_float (elem4 dout n c oh ow) else 0) [0..<OW])) [0..<OH])"
      unfolding tensor4.simps
    proof (rule sum_list_cong_upt)
      fix oh assume oh: "oh < OH"
      show "sum_list (map (\<lambda>ow'.
                   sum_list (map (\<lambda>i. sum_list (map (\<lambda>j.
                     if oh * ?s + i = y + ?pad \<and> ow' * ?s + j = x' + ?pad
                     then mat_flat ?dcol
                            (((((n * OH + oh) * OW + ow') * C + c) * ?ph + i) * ?pw + j)
                     else 0)
                   [0..<?pw])) [0..<?ph])) [0..<OW])
          = sum_list (map (\<lambda>ow.
             if oh * ?s + am ! window_index OH OW C n c oh ow div ?pw = y + ?pad
                \<and> ow * ?s + am ! window_index OH OW C n c oh ow mod ?pw = x' + ?pad
             then to_float (elem4 dout n c oh ow) else 0) [0..<OW])"
        by (rule sum_list_cong_upt) (rule win [OF oh])
    qed
    then show ?thesis by (simp only: sum_list_upt_sum)
  qed
  have "dims4 ?dx = (N, C, H, W)" by simp
  with run elem show ?thesis by blast
qed

lemma stride_unique:
  assumes "r < s" and "r' < s" and "q * s + r = q' * s + (r' :: nat)"
  shows "q = q' \<and> r = r'"
proof -
  have "(q * s + r) div s = q" "(q * s + r) mod s = r"
    using assms(1) by (rule decode_div, rule decode_mod)
  moreover have "(q' * s + r') div s = q'" "(q' * s + r') mod s = r'"
    using assms(2) by (rule decode_div, rule decode_mod)
  ultimately show ?thesis using assms(3) by simp
qed

lemmas pool_eval = Pooling_forward_def pool_out_size_def py_int_def im2col_def im2col_out_def
  padded_def reshape_windows_def reshape_out_def mat_flat_def ncols_def argmax_row_def tensor_of_def
  to_lists_def Pooling_backward_def permute_flatten_def scatter_argmax_def reshape_dcol_def
  col2im_def Let_def upt_conv_Cons numeral_2_eq_2 [symmetric]

text \<open>
  C7 (as stated). The claim lets every position of a window other than the recorded
  argmax receive exactly zero gradient, for every pooling layer. With windows that overlap
  (a \<open>1 \<times> 2\<close> pool with stride \<open>1\<close>, the default stride) on the input row \<open>[1, 3, 5]\<close>, the
  first window \<open>[1, 3]\<close> and the second window \<open>[3, 5]\<close> both record position \<open>1\<close>: the
  input columns \<open>1\<close> and \<open>2\<close>. With upstream gradient \<open>1\<close> for both windows \<open>backward\<close> returns
  \<open>[0, 1, 1]\<close>: input column \<open>1\<close> is a position of the second window, is not its argmax,
  and receives the gradient \<open>1\<close> that the first window routes to it. (The cast is the
  identity here.)
\<close>

theorem Pooling_overlap_counterexample:
  "map_sum id (map_prod id to_lists)
     (Pooling_forward \<lparr>pool_h = 1, pool_w = 2, pool_stride = 1, pool_pad = 0,
                        pool_x = None, pool_arg_max = None\<rparr>
        (tensor_of (1, 1, 1, 3) [[[[1, 3, 5]]]]))
   = Inr (\<lparr>pool_h = 1, pool_w = 2, pool_stride = 1, pool_pad = 0,
           pool_x = Some (tensor_of (1, 1, 1, 3) [[[[1, 3, 5]]]]),
           pool_arg_max = Some [1, 1]\<rparr>, [[[[3, 5]]]])
   \<and> map_sum id to_lists
     (Pooling_backward id
        \<lparr>pool_h = 1, pool_w = 2, pool_stride = 1, pool_pad = 0,
         pool_x = Some (tensor_of (1, 1, 1, 3) [[[[1, 3, 5]]]]),
         pool_arg_max = Some [1, 1]\<rparr>
        (tensor_of (1, 1, 1, 2) [[[[1, 1]]]]))
   = Inr [[[[0, 1, 1]]]]"
  by (simp add: pool_eval)

text \<open>
  C7 (amended). After a forward call on a non-empty input \<open>x\<close> that is at least as large
  as the pooling window (\<open>pool_h \<le> H\<close>, \<open>pool_w \<le> W\<close>), for an upstream gradient
  \<open>dout\<close> of the shape of the forward output: the index recorded for every window is a
  position at which the window's values are maximal (that maximum is the output of
  forward), and \<open>backward\<close> returns a gradient \<open>dx\<close> of the shape of \<open>x\<close> whose entry at an input
  position is the sum, over the windows of that channel whose recorded argmax is this
  position, of their incoming gradient values (cast to single precision); a window
  contributes nothing to its other positions. When the windows do not overlap
  (\<open>pool_h \<le> stride\<close> and \<open>pool_w \<le> stride\<close>), every input position of a window receives
  exactly the window's incoming gradient value if it is the recorded argmax and exactly
  \<open>0\<close> otherwise.
\<close>

theorem Pooling_backward_routes_to_argmax:
  assumes fwd: "Pooling_forward self x = Inr (self', out)"
    and d: "dims4 x = (N, C, H, W)" and N: "0 < N" and C: "0 < C"
    and fit: "pool_h self \<le> H" "pool_w self \<le> W"
    and dd: "dims4 dout = dims4 out"
  shows "\<exists>OH OW am dx.
           dims4 out = (N, C, OH, OW) \<and> pool_arg_max self' = Some am
         \<and> Pooling_backward to_float self' dout = Inr dx \<and> dims4 dx = (N, C, H, W)
         \<and> (\<forall>n < N. \<forall>c < C. \<forall>oh < OH. \<forall>ow < OW.
               am ! window_index OH OW C n c oh ow < pool_h self * pool_w self
             \<and> am ! window_index OH OW C n c oh ow
                 = argmax_row (window_values self x n c oh ow)
             \<and> (\<forall>p < pool_h self * pool_w self.
                   window_values self x n c oh ow ! p
                   \<le> window_values self x n c oh ow ! (am ! window_index OH OW C n c oh ow))
             \<and> elem4 out n c oh ow
                 = window_values self x n c oh ow ! (am ! window_index OH OW C n c oh ow))
         \<and> (\<forall>n < N. \<forall>c < C. \<forall>y < H. \<forall>x' < W.
               elem4 dx n c y x' =
                 (\<Sum>oh < OH. \<Sum>ow < OW.
                    if oh * pool_stride self
                         + am ! window_index OH OW C n c oh ow div pool_w self
                         = y + pool_pad self
                       \<and> ow * pool_stride self
                           + am ! window_index OH OW C n c oh ow mod pool_w self
                         = x' + pool_pad self
                    then to_float (elem4 dout n c oh ow) else 0))
         \<and> (pool_h self \<le> pool_stride self \<and> pool_w self \<le> pool_stride self \<longrightarrow>
              (\<forall>n < N. \<forall>c < C. \<forall>oh < OH. \<forall>ow < OW.
                 \<forall>i < pool_h self. \<forall>j < pool_w self.
                   pool_pad self \<le> oh * pool_stride self + i
                   \<and> oh * pool_stride self + i < H + pool_pad self
                   \<and> pool_pad self \<le> ow * pool_stride self + j
                   \<and> ow * pool_stride self + j < W + pool_pad self \<longrightarrow>
                   elem4 dx n c (oh * pool_stride self + i - pool_pad self)
                                (ow * pool_stride self + j - pool_pad self)
                   = (if i * pool_w self + j = am ! window_index OH OW C n c oh ow
                      then to_float (elem4 dout n c oh ow) else 0)))"
proof -
  let ?ph = "pool_h self" and ?pw = "pool_w self" and ?s = "pool_stride self"
  let ?pad = "pool_pad self"
  let ?ps = "?ph * ?pw"
  from Pooling_forward_facts [OF fwd d N C fit] obtain OH OW am where
    OH: "im2col_out H ?ph ?s ?pad = Inr OH" and OW: "im2col_out W ?pw ?s ?pad = Inr OW"
    and ps: "0 < ?ps" and od: "dims4 out = (N, C, OH, OW)"
    and s': "self' = self\<lparr>pool_x := Some x, pool_arg_max := Some am\<rparr>"
    and len: "length am = N * OH * OW * C"
    and rec: "\<And>n c oh ow. n < N \<Longrightarrow> c < C \<Longrightarrow> oh < OH \<Longrightarrow> ow < OW \<Longrightarrow>
               am ! window_index OH OW C n c oh ow = argmax_row (window_values self x n c oh ow)
             \<and> elem4 out n c oh ow
                 = window_values self x n c oh ow ! (am ! window_index OH OW C n c oh ow)"
    by blast
  have lw: "length (window_values self x n c oh ow) = ?ps" for n c oh ow
    by (simp add: window_values_def)
  have wne: "window_values self x n c oh ow \<noteq> []" for n c oh ow
    using lw [of n c oh ow] ps by auto
  have first: "am ! window_index OH OW C n c oh ow < ?ps
             \<and> am ! window_index OH OW C n c oh ow
                 = argmax_row (window_values self x n c oh ow)
             \<and> (\<forall>p < ?ps.
                   window_values self x n c oh ow ! p
                   \<le> window_values self x n c oh ow ! (am ! window_index OH OW C n c oh ow))
             \<and> elem4 out n c oh ow
                 = window_values self x n c oh ow ! (am ! window_index OH OW C n c oh ow)"
    if t: "n < N" "c < C" "oh < OH" "ow < OW" for n c oh ow
  proof -
    note r = rec [OF t]
    have "argmax_row (window_values self x n c oh ow) < ?ps"
      using argmax_row_bound [OF wne [of n c oh ow]] by (simp add: lw)
    moreover have "window_values self x n c oh ow ! p
          \<le> window_values self x n c oh ow ! argmax_row (window_values self x n c oh ow)"
      if "p < ?ps" for p
      using that by (intro argmax_row_max) (simp add: lw)
    ultimately show ?thesis using r by simp
  qed
  have bound: "\<forall>k < length am. am ! k < pool_h self' * pool_w self'"
  proof (intro allI impI)
    fix k assume "k < length am"
    then have k: "k < N * OH * OW * C" by (simp add: len)
    from k have oh0: "0 < OH" by (cases OH) simp_all
    from k have ow0: "0 < OW" by (cases OW) simp_all
    let ?c = "k mod C" and ?ow = "k div C mod OW" and ?oh = "k div C div OW mod OH"
    let ?n = "k div C div OW div OH"
    have c: "?c < C" using C by simp
    have ow: "?ow < OW" using ow0 by simp
    have oh: "?oh < OH" using oh0 by simp
    have "k div C < N * OH * OW" using k by (simp add: less_mult_imp_div_less)
    then have "k div C div OW < N * OH" by (simp add: less_mult_imp_div_less)
    then have n: "?n < N" by (simp add: less_mult_imp_div_less)
    have "window_index OH OW C ?n ?c ?oh ?ow = k"
      by (simp add: window_index_def)
    with first [OF n c oh ow] show "am ! k < pool_h self' * pool_w self'"
      by (simp add: s')
  qed
  have dd': "dims4 dout = (N, C, OH, OW)" using dd od by simp
  have hs: "pool_h self' = ?ph" "pool_w self' = ?pw" "pool_stride self' = ?s"
      "pool_pad self' = ?pad"
    by (simp_all add: s')
  have px: "pool_x self' = Some x" and pam: "pool_arg_max self' = Some am"
    by (simp_all add: s')
  have OH': "im2col_out H (pool_h self') (pool_stride self') (pool_pad self') = Inr OH"
    and OW': "im2col_out W (pool_w self') (pool_stride self') (pool_pad self') = Inr OW"
    unfolding hs using OH OW by simp_all
  note bf = Pooling_backward_facts [OF px pam d dd' OH' OW' len bound N C, of to_float,
      unfolded hs]
  then obtain dx where run: "Pooling_backward to_float self' dout = Inr dx"
    and dxd: "dims4 dx = (N, C, H, W)"
    and elem0: "\<forall>n < N. \<forall>c < C. \<forall>y x'.
               elem4 dx n c y x' =
                 (\<Sum>oh < OH. \<Sum>ow < OW.
                    if oh * ?s + am ! window_index OH OW C n c oh ow div ?pw = y + ?pad
                       \<and> ow * ?s + am ! window_index OH OW C n c oh ow mod ?pw = x' + ?pad
                    then to_float (elem4 dout n c oh ow) else 0)"
    by blast
  have elem: "elem4 dx n c y x' =
                 (\<Sum>oh < OH. \<Sum>ow < OW.
                    if oh * ?s + am ! window_index OH OW C n c oh ow div ?pw = y + ?pad
                       \<and> ow * ?s + am ! window_index OH OW C n c oh ow mod ?pw = x' + ?pad
                    then to_float (elem4 dout n c oh ow) else 0)"
    if "n < N" "c < C" for n c y x'
    using elem0 that by blast
  have disjoint: "elem4 dx n c (oh * ?s + i - ?pad) (ow * ?s + j - ?pad)
                   = (if i * ?pw + j = am ! window_index OH OW C n c oh ow
                      then to_float (elem4 dout n c oh ow) else 0)"
    if st: "?ph \<le> ?s" "?pw \<le> ?s" and t: "n < N" "c < C" "oh < OH" "ow < OW"
      and i: "i < ?ph" and j: "j < ?pw"
      and py: "?pad \<le> oh * ?s + i" and px: "?pad \<le> ow * ?s + j"
    for n c oh ow i j
  proof -
    let ?a = "\<lambda>oh' ow'. am ! window_index OH OW C n c oh' ow'"
    let ?v = "\<lambda>oh' ow'. to_float (elem4 dout n c oh' ow')"
    have tm: "(if oh' * ?s + ?a oh' ow' div ?pw = oh * ?s + i
                    \<and> ow' * ?s + ?a oh' ow' mod ?pw = ow * ?s + j
                 then ?v oh' ow' else 0)
              = (if oh' = oh then (if ow' = ow
                   then (if i * ?pw + j = ?a oh ow then ?v oh ow else 0) else 0) else 0)"
      if o: "oh' < OH" "ow' < OW" for oh' ow'
    proof -
      from first [OF t(1,2) o] have a: "?a oh' ow' < ?ps" by simp
      have ad: "?a oh' ow' div ?pw < ?s"
        using a st(1) by (intro less_le_trans [OF _ st(1)])
           (simp add: less_mult_imp_div_less mult.commute)
      have am': "?a oh' ow' mod ?pw < ?s"
        using j st(2) by (intro less_le_trans [OF _ st(2)]) simp
      have ilt: "i < ?s" using i st(1) by simp
      have jlt: "j < ?s" using j st(2) by simp
      show ?thesis
      proof (cases "oh' * ?s + ?a oh' ow' div ?pw = oh * ?s + i
                    \<and> ow' * ?s + ?a oh' ow' mod ?pw = ow * ?s + j")
        case True
        from True have e1: "oh' * ?s + ?a oh' ow' div ?pw = oh * ?s + i"
          and e2: "ow' * ?s + ?a oh' ow' mod ?pw = ow * ?s + j" by simp_all
        from stride_unique [OF ad ilt e1] have 1: "oh' = oh" "?a oh' ow' div ?pw = i"
          by blast+
        from stride_unique [OF am' jlt e2] have 2: "ow' = ow" "?a oh' ow' mod ?pw = j"
          by blast+
        from 1 2 have "i = ?a oh ow div ?pw \<and> j = ?a oh ow mod ?pw" by auto
        then have "i * ?pw + j = ?a oh ow"
          using window_position [OF j, of i "?a oh ow"] by blast
        with True 1 2 show ?thesis by simp
      next
        case False
        have "\<not> (oh' = oh \<and> ow' = ow \<and> i * ?pw + j = ?a oh ow)"
        proof
          assume h: "oh' = oh \<and> ow' = ow \<and> i * ?pw + j = ?a oh ow"
          then have "i = ?a oh ow div ?pw \<and> j = ?a oh ow mod ?pw"
            using window_position [OF j, of i "?a oh ow"] by simp
          with h False show False by simp
        qed
        with False show ?thesis by auto
      qed
    qed
    have "elem4 dx n c (oh * ?s + i - ?pad) (ow * ?s + j - ?pad)
        = (\<Sum>oh' < OH. \<Sum>ow' < OW.
             if oh' * ?s + ?a oh' ow' div ?pw = oh * ?s + i
                \<and> ow' * ?s + ?a oh' ow' mod ?pw = ow * ?s + j
             then ?v oh' ow' else 0)"
      using elem [OF t(1,2), of "oh * ?s + i - ?pad" "ow * ?s + j - ?pad"] py px by simp
    also have "\<dots> = (\<Sum>oh' < OH. \<Sum>ow' < OW.
             if oh' = oh then (if ow' = ow
                   then (if i * ?pw + j = ?a oh ow then ?v oh ow else 0) else 0) else 0)"
      by (intro sum.cong refl tm) simp_all
    also have "\<dots> = (\<Sum>oh' < OH. if oh' = oh
             then (\<Sum>ow' < OW. if ow' = ow
                   then (if i * ?pw + j = ?a oh ow then ?v oh ow else 0) else 0) else 0)"
      by (intro sum.cong refl) simp
    also have "\<dots> = (\<Sum>ow' < OW. if ow' = ow
                   then (if i * ?pw + j = ?a oh ow then ?v oh ow else 0) else 0)"
      using t(3) by (simp add: sum.delta)
    also have "\<dots> = (if i * ?pw + j = ?a oh ow then ?v oh ow else 0)"
      using t(4) by (simp add: sum.delta)
    finally show ?thesis .
  qed
  have A: "\<forall>n < N. \<forall>c < C. \<forall>oh < OH. \<forall>ow < OW.
               am ! window_index OH OW C n c oh ow < pool_h self * pool_w self
             \<and> am ! window_index OH OW C n c oh ow
                 = argmax_row (window_values self x n c oh ow)
             \<and> (\<forall>p < pool_h self * pool_w self.
                   window_values self x n c oh ow ! p
                   \<le> window_values self x n c oh ow ! (am ! window_index OH OW C n c oh ow))
             \<and> elem4 out n c oh ow
                 = window_values self x n c oh ow ! (am ! window_index OH OW C n c oh ow)"
    using first by blast
  have B: "\<forall>n < N. \<forall>c < C. \<forall>y < H. \<forall>x' < W.
               elem4 dx n c y x' =
                 (\<Sum>oh < OH. \<Sum>ow < OW.
                    if oh * pool_stride self
                         + am ! window_index OH OW C n c oh ow div pool_w self
                         = y + pool_pad self
                       \<and> ow * pool_stride self
                           + am ! window_index OH OW C n c oh ow mod pool_w self
                         = x' + pool_pad self
                    then to_float (elem4 dout n c oh ow) else 0)"
    using elem0 by blast
  have D: "pool_h self \<le> pool_stride self \<and> pool_w self \<le> pool_stride self \<longrightarrow>
              (\<forall>n < N. \<forall>c < C. \<forall>oh < OH. \<forall>ow < OW.
                 \<forall>i < pool_h self. \<forall>j < pool_w self.
                   pool_pad self \<le> oh * pool_stride self + i
                   \<and> oh * pool_stride self + i < H + pool_pad self
                   \<and> pool_pad self \<le> ow * pool_stride self + j
                   \<and> ow * pool_stride self + j < W + pool_pad self \<longrightarrow>
                   elem4 dx n c (oh * pool_stride self + i - pool_pad self)
                                (ow * pool_stride self + j - pool_pad self)
                   = (if i * pool_w self + j = am ! window_index OH OW C n c oh ow
                      then to_float (elem4 dout n c oh ow) else 0))"
  proof (intro impI allI)
    fix n c oh ow i j
    assume st: "?ph \<le> ?s \<and> ?pw \<le> ?s"
      and t: "n < N" "c < C" "oh < OH" "ow < OW" "i < ?ph" "j < ?pw"
      and b: "?pad \<le> oh * ?s + i \<and> oh * ?s + i < H + ?pad
              \<and> ?pad \<le> ow * ?s + j \<and> ow * ?s + j < W + ?pad"
    from st have st1: "?ph \<le> ?s" and st2: "?pw \<le> ?s" by simp_all
    from b have b1: "?pad \<le> oh * ?s + i" and b2: "?pad \<le> ow * ?s + j" by simp_all
    show "elem4 dx n c (oh * ?s + i - ?pad) (ow * ?s + j - ?pad)
                   = (if i * ?pw + j = am ! window_index OH OW C n c oh ow
                      then to_float (elem4 dout n c oh ow) else 0)"
      using st1 st2 t b1 b2 by (rule disjoint)
  qed
  from od pam run dxd A B D show ?thesis by blast
qed

theorem Pooling_backward_routes_to_argmax_witness:
  "map_sum id (map_prod id to_lists)
     (Pooling_forward \<lparr>pool_h = 2, pool_w = 2, pool_stride = 2, pool_pad = 0,
                        pool_x = None, pool_arg_max = None\<rparr>
        (tensor_of (1, 2, 2, 4) [[[[1, 2, 3, 4], [5, 6, 7, 8]], [[8, 7, 6, 5], [4, 3, 2, 1]]]]))
   = Inr (\<lparr>pool_h = 2, pool_w = 2, pool_stride = 2, pool_pad = 0,
           pool_x = Some (tensor_of (1, 2, 2, 4)
                     [[[[1, 2, 3, 4], [5, 6, 7, 8]], [[8, 7, 6, 5], [4, 3, 2, 1]]]]),
           pool_arg_max = Some [3, 0, 3, 0]\<rparr>, [[[[6, 8]], [[8, 6]]]])
   \<and> map_sum id to_lists
     (Pooling_backward id
        \<lparr>pool_h = 2, pool_w = 2, pool_stride = 2, pool_pad = 0,
           pool_x = Some (tensor_of (1, 2, 2, 4)
                     [[[[1, 2, 3, 4], [5, 6, 7, 8]], [[8, 7, 6, 5], [4, 3, 2, 1]]]]),
           pool_arg_max = Some [3, 0, 3, 0]\<rparr>
        (tensor_of (1, 2, 1, 2) [[[[10, 20]], [[30, 40]]]]))
   = Inr [[[[0, 0, 0, 0], [0, 10, 0, 20]], [[30, 0, 40, 0], [0, 0, 0, 0]]]]"
proof -
  let ?P = "\<lparr>pool_h = 2, pool_w = 2, pool_stride = 2, pool_pad = 0,
             pool_x = None, pool_arg_max = None\<rparr>"
  let ?X = "tensor_of (1, 2, 2, 4) [[[[1, 2, 3, 4], [5, 6, 7, 8]], [[8, 7, 6, 5], [4, 3, 2, 1]]]]"
  let ?P' = "\<lparr>pool_h = 2, pool_w = 2, pool_stride = 2, pool_pad = 0,
              pool_x = Some ?X, pool_arg_max = Some [3, 0, 3, 0]\<rparr>"
  let ?D = "tensor_of (1, 2, 1, 2) [[[[10, 20]], [[30, 40]]]]"
  have f: "map_sum id (map_prod id to_lists) (Pooling_forward ?P ?X)
           = Inr (?P', [[[[6, 8]], [[8, 6]]]])"
    by (simp add: pool_eval)
  have fd: "map_sum id (map_prod id dims4) (Pooling_forward ?P ?X) = Inr (?P', (1, 2, 1, 2))"
    by (simp add: pool_eval)
  from fd obtain out where fw: "Pooling_forward ?P ?X = Inr (?P', out)"
    and od: "dims4 out = (1, 2, 1, 2)"
    by (cases "Pooling_forward ?P ?X") auto
  have d: "dims4 ?X = (1, 2, 2, 4)" by (simp add: tensor_of_def)
  have dd: "dims4 ?D = dims4 out" by (simp add: tensor_of_def od)
  from Pooling_backward_routes_to_argmax [OF fw d _ _ _ _ dd, of id]
  obtain dx where b: "Pooling_backward id ?P' ?D = Inr dx"
    by auto
  have "map_sum id to_lists (Pooling_backward id ?P' ?D)
        = Inr [[[[0, 0, 0, 0], [0, 10, 0, 20]], [[30, 0, 40, 0], [0, 0, 0, 0]]]]"
    by (simp add: pool_eval)
  with f b show ?thesis by simp
qed

text \<open>
  C9. \<open>Relu.backward\<close> mutates its argument in place: the returned reference is the
  caller's \<open>dout\<close> itself, and after the call the tensor stored under \<open>dout\<close> has been
  zeroed at the positions masked during forward and is unchanged elsewhere; no other
  object of the store is touched.
\<close>

theorem Relu_backward_in_place:
  assumes "st dout = Some v" and "mask self = Some m" and "length m = length v"
  shows "Relu_backward self st dout = Inr (st(dout \<mapsto> masked_fill_zero v m), dout)
           \<and> length (masked_fill_zero v m) = length v
           \<and> (\<forall>i < length v. masked_fill_zero v m ! i = (if m ! i then 0 else v ! i))"
  using assms by (simp add: Relu_backward_def masked_fill_zero_def)

theorem Relu_backward_in_place_witness:
  "Relu_backward \<lparr>mask = Some [True, False]\<rparr> [7 \<mapsto> [5, 6]] 7 = Inr ([7 \<mapsto> [0, 6]], 7)"
  using Relu_backward_in_place [of "[7 \<mapsto> [5, 6]]" 7 "[5, 6]" "\<lparr>mask = Some [True, False]\<rparr>" "[True, False]"]
  by (simp add: masked_fill_zero_def)
end
